theory Spec2Isabelle
  imports Main "HOL-Library.Word" "HOL-Library.Signed_Division"
begin

section \<open>The LED stack game (Stack\_game.ino) as a state machine\<close>

text \<open>
  The sketch keeps its whole state in global variables and is driven by the Arduino
  runtime: \<^verbatim>\<open>setup()\<close> once, then \<^verbatim>\<open>loop()\<close> for ever. Every global becomes a field
  of the record \<open>state\<close>; every function of the sketch becomes a function from the state
  to the new state. What the sketch reads from the outside in one pass of \<^verbatim>\<open>loop()\<close>
  (the serial byte, the button pin, the clock, the results of \<^verbatim>\<open>random\<close>) is the record
  \<open>inputs\<close>.

  C \<^verbatim>\<open>int\<close> is modelled by \<open>int\<close>: on every state the sketch reaches, the integer
  variables stay between 0 and 200 (\<open>game_inv\<close> and lemma \<open>run_invariant\<close> below) and every
  intermediate value between -1 and 200, so that no arithmetic of the sketch comes near
  an overflow, whatever the width of \<^verbatim>\<open>int\<close>.
  \<^verbatim>\<open>unsigned long\<close> (the clock) is a 32-bit word, and the comparison of line 225 is made
  on 32-bit words as C makes it. The text printed on the serial line is left out; the
  reads of the grid made to print it are kept.
\<close>

subsection \<open>Constants\<close>

definition WIDTH :: int where
  "WIDTH = 8"

definition HEIGHT :: int where
  "HEIGHT = 32"

definition BLOCK_WIDTH :: int where
  "BLOCK_WIDTH = 4"

definition ROTATE_DISPLAY :: bool where
  "ROTATE_DISPLAY = True"

subsection \<open>Data\<close>

text \<open>
  \<^verbatim>\<open>int stack[HEIGHT][WIDTH]\<close>: the contents by row and column index. Only the indices
  \<open>0 \<le> row < HEIGHT\<close>, \<open>0 \<le> col < WIDTH\<close> are cells of the array; an access with any other
  index is undefined behaviour in C and is the fault \<open>OutOfBounds\<close> here, so no function
  below ever looks at the contents outside the array.
\<close>

type_synonym grid = "int \<Rightarrow> int \<Rightarrow> int"

datatype fault = OutOfBounds

text \<open>The LED matrix: the points switched on by \<^verbatim>\<open>setPoint\<close> since the last \<^verbatim>\<open>clear\<close>,
  in the order of the calls.\<close>

type_synonym point = "int \<times> int"

record state =
  blockPos :: int
  blockRow :: int
  blockMoving :: bool
  stack :: grid
  stackHeight :: int
  gameOver :: bool
  lastMove :: "32 word"
  moveDelay :: int
  moveRight :: bool
  testMode :: bool
  testRow :: int
  matrix :: "point list"

text \<open>
  One pass of \<^verbatim>\<open>loop()\<close> reads: at most one byte of the serial line (\<open>None\<close> when
  \<^verbatim>\<open>Serial.available()\<close> is 0); the button pin, \<open>buttonLow k\<close> telling whether the
  \<open>k\<close>-th \<^verbatim>\<open>digitalRead(BUTTON_PIN)\<close> of the pass returns \<^verbatim>\<open>LOW\<close>; \<^verbatim>\<open>millis()\<close> twice;
  and what \<^verbatim>\<open>random(0, WIDTH - BLOCK_WIDTH + 1)\<close> returns in \<^verbatim>\<open>resetGame\<close> and in
  \<^verbatim>\<open>dropBlock\<close>, when the pass calls them.
\<close>

record inputs =
  serialIn :: "char option"
  buttonLow :: "nat \<Rightarrow> bool"
  millisA :: "32 word"
  millisB :: "32 word"
  rndReset :: int
  rndDrop :: int

datatype outcome = Returns state | Faults fault | Hangs

subsection \<open>Control structure\<close>

text \<open>Sequencing of a step that may fault.\<close>

definition seq :: "fault + 'a \<Rightarrow> ('a \<Rightarrow> fault + 'b) \<Rightarrow> fault + 'b" where
  "seq m k = (case m of Inl e \<Rightarrow> Inl e | Inr a \<Rightarrow> k a)"

definition andThen :: "fault + state \<Rightarrow> (state \<Rightarrow> outcome) \<Rightarrow> outcome" where
  "andThen m k = (case m of Inl e \<Rightarrow> Faults e | Inr s \<Rightarrow> k s)"

text \<open>\<^verbatim>\<open>for (int i = lo; i < hi; i++) body\<close>, the body acting on the variables \<open>a\<close>.\<close>

function for_loop :: "int \<Rightarrow> int \<Rightarrow> (int \<Rightarrow> 'a \<Rightarrow> fault + 'a) \<Rightarrow> 'a \<Rightarrow> fault + 'a" where
  "for_loop i hi body a =
     (if i < hi then seq (body i a) (for_loop (i + 1) hi body) else Inr a)"
  by pat_completeness auto
termination
  by (relation "measure (\<lambda>(i, hi, body, a). nat (hi - i))") auto

declare for_loop.simps [simp del]

text \<open>\<^verbatim>\<open>while (digitalRead(BUTTON_PIN) == LOW);\<close> starting at the \<open>k\<close>-th read of the pass:
  it returns the number of reads made so far, and does not return while the button is
  held.\<close>

partial_function (option) waitRelease :: "(nat \<Rightarrow> bool) \<Rightarrow> nat \<Rightarrow> nat option" where
  "waitRelease low k = (if low k then waitRelease low (Suc k) else Some (Suc k))"

declare waitRelease.simps [code]

subsection \<open>Array accesses\<close>

definition in_grid :: "int \<Rightarrow> int \<Rightarrow> bool" where
  "in_grid row col = (0 \<le> row \<and> row < HEIGHT \<and> 0 \<le> col \<and> col < WIDTH)"

definition stack_read :: "grid \<Rightarrow> int \<Rightarrow> int \<Rightarrow> fault + int" where
  "stack_read g row col = (if in_grid row col then Inr (g row col) else Inl OutOfBounds)"

definition stack_write :: "int \<Rightarrow> int \<Rightarrow> int \<Rightarrow> grid \<Rightarrow> fault + grid" where
  "stack_write row col v g =
     (if in_grid row col then Inr (g(row := (g row)(col := v))) else Inl OutOfBounds)"

subsection \<open>updateDisplay\<close>

definition plot :: "int \<Rightarrow> int \<Rightarrow> point list \<Rightarrow> point list" where
  "plot row col m = (if ROTATE_DISPLAY then m @ [(col, row)] else m @ [(row, col)])"

definition drawTestRow :: "int \<Rightarrow> point list \<Rightarrow> fault + point list" where
  "drawTestRow trow m = for_loop 0 WIDTH (\<lambda>col m'. Inr (plot trow col m')) m"

definition drawStackCell :: "grid \<Rightarrow> int \<Rightarrow> int \<Rightarrow> point list \<Rightarrow> fault + point list" where
  "drawStackCell g row col m =
     seq (stack_read g row col) (\<lambda>v. Inr (if v \<noteq> 0 then plot row col m else m))"

definition drawStack :: "grid \<Rightarrow> point list \<Rightarrow> fault + point list" where
  "drawStack g m = for_loop 0 HEIGHT (\<lambda>row. for_loop 0 WIDTH (drawStackCell g row)) m"

definition drawBlockCol :: "int \<Rightarrow> int \<Rightarrow> point list \<Rightarrow> fault + point list" where
  "drawBlockCol brow col m = Inr (if col \<ge> 0 \<and> col < WIDTH then plot brow col m else m)"

definition drawBlock :: "state \<Rightarrow> point list \<Rightarrow> fault + point list" where
  "drawBlock s m =
     (if \<not> gameOver s \<and> blockMoving s
      then for_loop (blockPos s) (blockPos s + BLOCK_WIDTH) (drawBlockCol (blockRow s)) m
      else Inr m)"

definition updateDisplay :: "state \<Rightarrow> fault + state" where
  "updateDisplay s =
     (if testMode s
      then seq (drawTestRow (testRow s) []) (\<lambda>m. Inr (s\<lparr>matrix := m\<rparr>))
      else seq (drawStack (stack s) []) (\<lambda>m.
           seq (drawBlock s m) (\<lambda>m'. Inr (s\<lparr>matrix := m'\<rparr>))))"

subsection \<open>resetGame and the start of the sketch\<close>

definition clearStack :: "grid \<Rightarrow> fault + grid" where
  "clearStack g =
     for_loop 0 HEIGHT (\<lambda>row. for_loop 0 WIDTH (\<lambda>col. stack_write row col 0)) g"

text \<open>\<open>rnd\<close> is what \<^verbatim>\<open>random(0, WIDTH - BLOCK_WIDTH + 1)\<close> returns.\<close>

definition valid_random :: "int \<Rightarrow> bool" where
  "valid_random rnd = (0 \<le> rnd \<and> rnd < WIDTH - BLOCK_WIDTH + 1)"

definition resetGame :: "int \<Rightarrow> state \<Rightarrow> fault + state" where
  "resetGame rnd s =
     seq (clearStack (stack s)) (\<lambda>g.
       updateDisplay (s\<lparr>stack := g, blockPos := rnd, blockRow := 0, stackHeight := 0,
         gameOver := False, blockMoving := True, moveDelay := 200, moveRight := True,
         testMode := False, testRow := 0\<rparr>))"

text \<open>The globals as their initialisers leave them, and \<^verbatim>\<open>setup()\<close> (named \<open>setupSketch\<close>:
  \<open>setup\<close> is a keyword of Isabelle).\<close>

definition boot :: state where
  "boot = \<lparr>blockPos = 0, blockRow = 0, blockMoving = True, stack = (\<lambda>row col. 0),
     stackHeight = 0, gameOver = False, lastMove = 0, moveDelay = 200, moveRight = True,
     testMode = False, testRow = 0, matrix = []\<rparr>"

definition setupSketch :: "int \<Rightarrow> fault + state" where
  "setupSketch rnd = resetGame rnd (boot\<lparr>matrix := []\<rparr>)"

subsection \<open>dropBlock\<close>

text \<open>The body of the loop over the columns of the block, on the variables
  \<^verbatim>\<open>stack\<close> and \<^verbatim>\<open>placed\<close>.\<close>

definition dropCol :: "int \<Rightarrow> int \<Rightarrow> grid \<times> bool \<Rightarrow> fault + grid \<times> bool" where
  "dropCol brow col gp =
     (if col \<ge> 0 \<and> col < WIDTH then
        seq (if brow = 0 then Inr True
             else seq (stack_read (fst gp) (brow - 1) col) (\<lambda>v. Inr (v = 1)))
          (\<lambda>hit. if hit
             then seq (stack_write brow col 1 (fst gp)) (\<lambda>g. Inr (g, True))
             else Inr gp)
      else Inr gp)"

definition dropCols :: "state \<Rightarrow> fault + grid \<times> bool" where
  "dropCols s =
     (if blockRow s = 0 \<or> stackHeight s > 0
      then for_loop (blockPos s) (blockPos s + BLOCK_WIDTH) (dropCol (blockRow s))
             (stack s, False)
      else Inr (stack s, False))"

text \<open>The row printed on the serial line after a drop; only its reads matter here.\<close>

definition printRow :: "grid \<Rightarrow> int \<Rightarrow> fault + int list" where
  "printRow g row =
     for_loop 0 WIDTH (\<lambda>col out. seq (stack_read g row col) (\<lambda>v. Inr (out @ [v]))) []"

definition dropBlock :: "int \<Rightarrow> state \<Rightarrow> fault + state" where
  "dropBlock rnd s =
     seq (dropCols (s\<lparr>blockMoving := False\<rparr>)) (\<lambda>(g, placed).
       let s1 = s\<lparr>blockMoving := False, stack := g\<rparr> in
       if \<not> placed \<and> blockRow s1 > 0 then Inr (s1\<lparr>gameOver := True\<rparr>)
       else
         let s2 = (if blockRow s1 \<ge> stackHeight s1
                   then s1\<lparr>stackHeight := blockRow s1 + 1\<rparr> else s1) in
         if stackHeight s2 \<ge> HEIGHT then Inr (s2\<lparr>gameOver := True\<rparr>)
         else
           let s3 = s2\<lparr>blockRow := blockRow s2 + 1, blockPos := rnd, blockMoving := True,
                      moveDelay := max 50 (moveDelay s2 - 10)\<rparr> in
           seq (printRow (stack s3) (blockRow s3 - 1)) (\<lambda>out. Inr s3))"

subsection \<open>loop\<close>

text \<open>Lines 173 to 190: the serial command.\<close>

definition handleSerial :: "inputs \<Rightarrow> state \<Rightarrow> fault + state" where
  "handleSerial inp s =
     (case serialIn inp of
        None \<Rightarrow> Inr s
      | Some c \<Rightarrow>
          seq (if c = CHR ''t'' then
                 (let s1 = s\<lparr>testMode := \<not> testMode s\<rparr> in
                  if testMode s1 then Inr (s1\<lparr>testRow := 0\<rparr>)
                  else resetGame (rndReset inp) s1)
               else if testMode s \<and> c = CHR ''n''
                 then Inr (s\<lparr>testRow := (testRow s + 1) smod HEIGHT\<rparr>)
               else Inr s)
            updateDisplay)"

text \<open>The debounced button: two reads \<^verbatim>\<open>LOW\<close>, 50 ms apart; after the action the
  pass waits for the release.\<close>

definition pressed :: "inputs \<Rightarrow> bool" where
  "pressed inp = (buttonLow inp 0 \<and> buttonLow inp 1)"

definition awaitRelease :: "inputs \<Rightarrow> state \<Rightarrow> outcome" where
  "awaitRelease inp s =
     (case waitRelease (buttonLow inp) 2 of None \<Rightarrow> Hangs | Some n \<Rightarrow> Returns s)"

text \<open>Lines 192 to 205: test mode.\<close>

definition testModePass :: "inputs \<Rightarrow> state \<Rightarrow> outcome" where
  "testModePass inp s =
     (if pressed inp
      then andThen (updateDisplay (s\<lparr>testRow := (testRow s + 1) smod HEIGHT\<rparr>))
             (awaitRelease inp)
      else Returns s)"

text \<open>Lines 207 to 222: game over; the display is cleared and drawn again (the flash),
  then the button restarts the game.\<close>

definition gameOverPass :: "inputs \<Rightarrow> state \<Rightarrow> outcome" where
  "gameOverPass inp s =
     andThen (updateDisplay (s\<lparr>matrix := []\<rparr>)) (\<lambda>s1.
       if pressed inp
       then andThen (resetGame (rndReset inp) s1) (awaitRelease inp)
       else Returns s1)"

text \<open>Lines 225 to 236: the block moves one column.\<close>

definition moveBlock :: "state \<Rightarrow> state" where
  "moveBlock s =
     (let s1 = s\<lparr>blockPos := blockPos s + (if moveRight s then 1 else - 1)\<rparr> in
      if blockPos s1 \<le> 0 then s1\<lparr>blockPos := 0, moveRight := True\<rparr>
      else if blockPos s1 \<ge> WIDTH - BLOCK_WIDTH
        then s1\<lparr>blockPos := WIDTH - BLOCK_WIDTH, moveRight := False\<rparr>
      else s1)"

definition moveDue :: "inputs \<Rightarrow> state \<Rightarrow> bool" where
  "moveDue inp s = (blockMoving s \<and> millisA inp - lastMove s \<ge> word_of_int (moveDelay s))"

definition motionPass :: "inputs \<Rightarrow> state \<Rightarrow> fault + state" where
  "motionPass inp s =
     (if moveDue inp s
      then updateDisplay ((moveBlock s)\<lparr>lastMove := millisB inp\<rparr>)
      else Inr s)"

text \<open>Lines 239 to 247: the button drops the block.\<close>

definition buttonPass :: "inputs \<Rightarrow> state \<Rightarrow> outcome" where
  "buttonPass inp s =
     (if pressed inp
      then andThen (seq (dropBlock (rndDrop inp) s) updateDisplay) (awaitRelease inp)
      else Returns s)"

definition loop :: "inputs \<Rightarrow> state \<Rightarrow> outcome" where
  "loop inp s =
     andThen (handleSerial inp s) (\<lambda>s1.
       if testMode s1 then testModePass inp s1
       else if gameOver s1 then gameOverPass inp s1
       else andThen (motionPass inp s1) (buttonPass inp))"

text \<open>The sketch running: \<^verbatim>\<open>setup()\<close>, then one pass of \<^verbatim>\<open>loop()\<close> for each element of the
  list of inputs.\<close>

fun passes :: "inputs list \<Rightarrow> state \<Rightarrow> outcome" where
  "passes [] s = Returns s"
| "passes (inp # inps) s =
     (case loop inp s of Returns s' \<Rightarrow> passes inps s' | Faults e \<Rightarrow> Faults e | Hangs \<Rightarrow> Hangs)"

definition run :: "int \<Rightarrow> inputs list \<Rightarrow> outcome" where
  "run rnd inps = andThen (setupSketch rnd) (passes inps)"

definition valid_inputs :: "inputs \<Rightarrow> bool" where
  "valid_inputs inp = (valid_random (rndReset inp) \<and> valid_random (rndDrop inp))"

subsection \<open>Notions used to state the properties\<close>

text \<open>Column \<open>col\<close> lies under the block.\<close>

definition span :: "state \<Rightarrow> int \<Rightarrow> bool" where
  "span s col = (blockPos s \<le> col \<and> col < blockPos s + BLOCK_WIDTH)"

text \<open>Column \<open>col\<close> of the block lands: it is a column of the grid, and the block is on
  the floor or the cell below holds 1 (the test of line 126).\<close>

definition lands :: "state \<Rightarrow> int \<Rightarrow> bool" where
  "lands s col =
     (0 \<le> col \<and> col < WIDTH \<and> (blockRow s = 0 \<or> stack s (blockRow s - 1) col = 1))"

text \<open>The value of \<^verbatim>\<open>placed\<close> after the loop of \<^verbatim>\<open>dropBlock\<close>, and the grid it leaves
  (lemma \<open>dropCols_result\<close>).\<close>

definition anyPlaced :: "state \<Rightarrow> bool" where
  "anyPlaced s =
     ((blockRow s = 0 \<or> stackHeight s > 0) \<and>
      (\<exists>col \<in> set [blockPos s .. blockPos s + BLOCK_WIDTH - 1]. lands s col))"

definition landGrid :: "state \<Rightarrow> grid" where
  "landGrid s =
     (\<lambda>row col.
        if (blockRow s = 0 \<or> stackHeight s > 0) \<and> row = blockRow s \<and> span s col \<and> lands s col
        then 1 else stack s row col)"

text \<open>The postconditions of a reset.\<close>

definition fresh :: "state \<Rightarrow> bool" where
  "fresh s =
     ((\<forall>row \<in> set [0 .. HEIGHT - 1]. \<forall>col \<in> set [0 .. WIDTH - 1]. stack s row col = 0) \<and>
      stackHeight s = 0 \<and>
      moveDelay s = 200 \<and> \<not> gameOver s \<and> \<not> testMode s \<and> blockMoving s \<and>
      blockRow s = 0 \<and> 0 \<le> blockPos s \<and> blockPos s \<le> WIDTH - BLOCK_WIDTH)"

text \<open>What holds of every state the sketch reaches (lemma \<open>run_invariant\<close>).\<close>

definition game_inv :: "state \<Rightarrow> bool" where
  "game_inv s =
     (0 \<le> blockPos s \<and> blockPos s \<le> WIDTH - BLOCK_WIDTH \<and>
      0 \<le> blockRow s \<and> blockRow s < HEIGHT \<and>
      0 \<le> stackHeight s \<and> stackHeight s \<le> HEIGHT \<and>
      (\<not> gameOver s \<longrightarrow> blockMoving s \<and> blockRow s = stackHeight s) \<and>
      (\<forall>row \<in> set [0 .. HEIGHT - 1]. \<forall>col \<in> set [0 .. WIDTH - 1].
         stack s row col = 0 \<or> stack s row col = 1) \<and>
      (\<forall>row \<in> set [0 .. HEIGHT - 1].
         (\<exists>col \<in> set [0 .. WIDTH - 1]. stack s row col = 1) \<longleftrightarrow> row < stackHeight s) \<and>
      50 \<le> moveDelay s \<and> moveDelay s \<le> 200 \<and>
      0 \<le> testRow s \<and> testRow s < HEIGHT)"

text \<open>The points of a frame are all in columns of the display.\<close>

definition in_cols :: "point list \<Rightarrow> bool" where
  "in_cols m = (\<forall>p \<in> set m. 0 \<le> fst p \<and> fst p < WIDTH)"

text \<open>The button is released at some read after the two of the debounce.\<close>

definition released :: "inputs \<Rightarrow> bool" where
  "released inp = (\<exists>k. \<not> buttonLow inp (2 + k))"

text \<open>Which passes of \<^verbatim>\<open>loop()\<close> call \<^verbatim>\<open>resetGame\<close> (on leaving test mode, line 182, or on
  the button after a game over, line 216) and which call \<^verbatim>\<open>dropBlock\<close> (line 243, reached
  when the pass is neither in test mode nor game over after the serial command).\<close>

definition callsReset :: "inputs \<Rightarrow> state \<Rightarrow> bool" where
  "callsReset inp s =
     (if serialIn inp = Some (CHR ''t'') then testMode s
      else \<not> testMode s \<and> gameOver s \<and> pressed inp)"

definition callsDrop :: "inputs \<Rightarrow> state \<Rightarrow> bool" where
  "callsDrop inp s =
     (pressed inp \<and>
      (if serialIn inp = Some (CHR ''t'') then testMode s
       else \<not> testMode s \<and> \<not> gameOver s))"

text \<open>A run of passes within one game: none of them calls \<^verbatim>\<open>resetGame\<close>.\<close>

fun oneGame :: "inputs list \<Rightarrow> state \<Rightarrow> bool" where
  "oneGame [] s = True"
| "oneGame (inp # inps) s =
     (\<not> callsReset inp s \<and>
      (case loop inp s of Returns s' \<Rightarrow> oneGame inps s' | Faults e \<Rightarrow> True | Hangs \<Rightarrow> True))"

text \<open>The sketch, started with \<open>rnd\<close> for the first position and run over the passes
  \<open>inps\<close>, ends in state \<open>s\<close>, whatever the display shows.\<close>

definition reaches :: "int \<Rightarrow> inputs list \<Rightarrow> state \<Rightarrow> bool" where
  "reaches rnd inps s = (\<exists>m. run rnd inps = Returns (s\<lparr>matrix := m\<rparr>))"

subsection \<open>Sample states and inputs\<close>

text \<open>A pass with nothing on the serial line and the button up; the button pressed and
  released at once; a byte on the serial line.\<close>

definition idle :: inputs where
  "idle = \<lparr>serialIn = None, buttonLow = (\<lambda>k. False), millisA = 0, millisB = 0,
     rndReset = 0, rndDrop = 0\<rparr>"

definition press :: inputs where
  "press = idle\<lparr>buttonLow := (\<lambda>k. k < 2)\<rparr>"

definition command :: "char \<Rightarrow> inputs" where
  "command c = idle\<lparr>serialIn := Some c\<rparr>"

text \<open>The game after one drop at columns 2 to 5, the block now over columns 0 to 3 of
  row 1; and after the next drop, which kept columns 2 and 3, the block over columns
  4 to 7 of row 2.\<close>

definition secondRow :: state where
  "secondRow = boot\<lparr>blockRow := 1, stackHeight := 1, moveDelay := 190,
     stack := (\<lambda>row col. if row = 0 \<and> 2 \<le> col \<and> col < 6 then 1 else 0)\<rparr>"

definition thirdRow :: state where
  "thirdRow = boot\<lparr>blockPos := 4, blockRow := 2, stackHeight := 2, moveDelay := 180,
     stack := (\<lambda>row col. if row = 0 \<and> 2 \<le> col \<and> col < 6 \<or> row = 1 \<and> 2 \<le> col \<and> col < 4
                          then 1 else 0)\<rparr>"

text \<open>The game after \<open>n\<close> drops at columns 0 to 3, and after 31 of them: the block is on the
  last row.\<close>

definition tower :: "nat \<Rightarrow> state" where
  "tower n = boot\<lparr>blockRow := int n, stackHeight := int n,
     moveDelay := max 50 (200 - 10 * int n),
     stack := (\<lambda>row col. if 0 \<le> row \<and> row < int n \<and> 0 \<le> col \<and> col < 4 then 1 else 0)\<rparr>"

definition lastRow :: state where
  "lastRow = boot\<lparr>blockRow := 31, stackHeight := 31, moveDelay := 50,
     stack := (\<lambda>row col. if 0 \<le> row \<and> row < 31 \<and> 0 \<le> col \<and> col < 4 then 1 else 0)\<rparr>"

section \<open>Properties\<close>

subsection \<open>Loops and sequencing\<close>

lemma seq_Inr [simp]: "seq (Inr a) k = k a"
  by (simp add: seq_def)

lemma seq_Inl [simp]: "seq (Inl e) k = Inl e"
  by (simp add: seq_def)

lemmas sizes = WIDTH_def HEIGHT_def BLOCK_WIDTH_def

text \<open>The notions above, with their quantifiers unbounded.\<close>

lemma ball_upto: "(\<forall>x \<in> set [0 .. n - 1]. P x) \<longleftrightarrow> (\<forall>x. 0 \<le> x \<and> x < n \<longrightarrow> P x)"
  by auto

lemma bex_upto: "(\<exists>x \<in> set [0 .. n - 1]. P x) \<longleftrightarrow> (\<exists>x. 0 \<le> x \<and> x < n \<and> P x)"
  by auto

lemma anyPlaced_iff:
  "anyPlaced s \<longleftrightarrow>
     (blockRow s = 0 \<or> stackHeight s > 0) \<and> (\<exists>col. span s col \<and> lands s col)"
  by (auto simp: anyPlaced_def span_def)

lemma fresh_iff:
  "fresh s \<longleftrightarrow>
     (\<forall>row col. in_grid row col \<longrightarrow> stack s row col = 0) \<and> stackHeight s = 0 \<and>
     moveDelay s = 200 \<and> \<not> gameOver s \<and> \<not> testMode s \<and> blockMoving s \<and>
     blockRow s = 0 \<and> 0 \<le> blockPos s \<and> blockPos s \<le> WIDTH - BLOCK_WIDTH"
  unfolding fresh_def ball_upto in_grid_def by blast

lemma game_inv_iff:
  "game_inv s \<longleftrightarrow>
     0 \<le> blockPos s \<and> blockPos s \<le> WIDTH - BLOCK_WIDTH \<and>
     0 \<le> blockRow s \<and> blockRow s < HEIGHT \<and>
     0 \<le> stackHeight s \<and> stackHeight s \<le> HEIGHT \<and>
     (\<not> gameOver s \<longrightarrow> blockMoving s \<and> blockRow s = stackHeight s) \<and>
     (\<forall>row col. in_grid row col \<longrightarrow> stack s row col = 0 \<or> stack s row col = 1) \<and>
     (\<forall>row. 0 \<le> row \<and> row < HEIGHT \<longrightarrow>
        ((\<exists>col. 0 \<le> col \<and> col < WIDTH \<and> stack s row col = 1) \<longleftrightarrow> row < stackHeight s)) \<and>
     50 \<le> moveDelay s \<and> moveDelay s \<le> 200 \<and>
     0 \<le> testRow s \<and> testRow s < HEIGHT"
proof -
  have a: "(\<forall>row \<in> set [0 .. HEIGHT - 1]. \<forall>col \<in> set [0 .. WIDTH - 1].
         stack s row col = 0 \<or> stack s row col = 1) \<longleftrightarrow>
     (\<forall>row col. in_grid row col \<longrightarrow> stack s row col = 0 \<or> stack s row col = 1)"
    unfolding ball_upto in_grid_def by blast
  have b: "(\<forall>row \<in> set [0 .. HEIGHT - 1].
         (\<exists>col \<in> set [0 .. WIDTH - 1]. stack s row col = 1) \<longleftrightarrow> row < stackHeight s) \<longleftrightarrow>
     (\<forall>row. 0 \<le> row \<and> row < HEIGHT \<longrightarrow>
        ((\<exists>col. 0 \<le> col \<and> col < WIDTH \<and> stack s row col = 1) \<longleftrightarrow> row < stackHeight s))"
    unfolding ball_upto bex_upto by blast
  show ?thesis unfolding game_inv_def a b by (rule refl)
qed


lemma for_loop_rule:
  assumes "I i a" and "i \<le> hi"
    and step: "\<And>j b. i \<le> j \<Longrightarrow> j < hi \<Longrightarrow> I j b \<Longrightarrow> \<exists>b'. body j b = Inr b' \<and> I (j + 1) b'"
  shows "\<exists>a'. for_loop i hi body a = Inr a' \<and> I hi a'"
  using assms
proof (induction i hi body a rule: for_loop.induct)
  case (1 i hi body a)
  show ?case
  proof (cases "i < hi")
    case True
    from "1.prems"(3)[of i a] True "1.prems"(1)
    obtain b where b: "body i a = Inr b" "I (i + 1) b" by auto
    have "\<exists>a'. for_loop (i + 1) hi body b = Inr a' \<and> I hi a'"
      using True b "1.prems"(3) by (intro "1.IH") auto
    then show ?thesis using True b by (subst for_loop.simps) simp
  next
    case False
    with "1.prems" have "i = hi" by simp
    then show ?thesis using "1.prems"(1) by (subst for_loop.simps) simp
  qed
qed

lemma waitRelease_returns: "\<not> low (k + d) \<Longrightarrow> \<exists>n. waitRelease low k = Some n"
proof (induction d arbitrary: k)
  case 0
  then show ?case by (subst waitRelease.simps) simp
next
  case (Suc d)
  from Suc.prems have "\<not> low (Suc k + d)" by simp
  from Suc.IH[OF this] show ?case by (subst waitRelease.simps) auto
qed

lemma waitRelease_Some: "waitRelease low k = Some n \<Longrightarrow> \<exists>j. k \<le> j \<and> \<not> low j"
proof (rule waitRelease.raw_induct[where P = "\<lambda>low k n. \<exists>j. k \<le> j \<and> \<not> low j"])
  fix w :: "(nat \<Rightarrow> bool) \<Rightarrow> nat \<Rightarrow> nat option" and low k n
  assume ih: "\<And>k b y. w k b = Some y \<Longrightarrow> \<exists>j. b \<le> j \<and> \<not> k j"
    and eq: "(if low k then w low (Suc k) else Some (Suc k)) = Some n"
  show "\<exists>j. k \<le> j \<and> \<not> low j"
  proof (cases "low k")
    case True
    with eq have "w low (Suc k) = Some n" by simp
    from ih[OF this] obtain j where "Suc k \<le> j" "\<not> low j" by auto
    then show ?thesis by (intro exI[of _ j]) simp
  next
    case False
    then show ?thesis by auto
  qed
qed

subsection \<open>updateDisplay and resetGame return\<close>

lemma drawTestRow_ok: "\<exists>m'. drawTestRow t m = Inr m'"
  unfolding drawTestRow_def
  using for_loop_rule[of "\<lambda>j b. True" 0 m WIDTH "\<lambda>col m'. Inr (plot t col m')"]
  by (auto simp: sizes)

lemma drawStackRow_ok:
  assumes "0 \<le> row" "row < HEIGHT"
  shows "\<exists>m'. for_loop 0 WIDTH (drawStackCell g row) m = Inr m'"
  using for_loop_rule[of "\<lambda>j b. True" 0 m WIDTH "drawStackCell g row"] assms
  by (auto simp: sizes drawStackCell_def stack_read_def in_grid_def)

lemma drawStack_ok: "\<exists>m'. drawStack g m = Inr m'"
  unfolding drawStack_def
  using for_loop_rule[of "\<lambda>j b. True" 0 m HEIGHT "\<lambda>row. for_loop 0 WIDTH (drawStackCell g row)"]
    drawStackRow_ok[of _ g]
  by (auto simp: sizes)

lemma drawBlock_ok: "\<exists>m'. drawBlock s m = Inr m'"
  unfolding drawBlock_def
  using for_loop_rule[of "\<lambda>j b. True" "blockPos s" m "blockPos s + BLOCK_WIDTH" "drawBlockCol (blockRow s)"]
  by (auto simp: sizes drawBlockCol_def)

lemma updateDisplay_ok: "\<exists>m. updateDisplay s = Inr (s\<lparr>matrix := m\<rparr>)"
proof (cases "testMode s")
  case True
  with drawTestRow_ok[of "testRow s" "[]"] show ?thesis
    by (auto simp: updateDisplay_def)
next
  case False
  obtain m where m: "drawStack (stack s) [] = Inr m" using drawStack_ok by blast
  obtain m' where "drawBlock s m = Inr m'" using drawBlock_ok by blast
  with m False show ?thesis by (auto simp: updateDisplay_def)
qed

lemma clearRow_result:
  assumes "0 \<le> row" "row < HEIGHT"
  shows "for_loop 0 WIDTH (\<lambda>col. stack_write row col 0) g =
    Inr (\<lambda>r c. if r = row \<and> 0 \<le> c \<and> c < WIDTH then 0 else g r c)"
proof -
  let ?I = "\<lambda>j g'. g' = (\<lambda>r c. if r = row \<and> 0 \<le> c \<and> c < j then 0 else g r c)"
  have "\<exists>a'. for_loop 0 WIDTH (\<lambda>col. stack_write row col 0) g = Inr a' \<and> ?I WIDTH a'"
  proof (rule for_loop_rule[where I = ?I])
    show "?I 0 g" by (simp add: fun_eq_iff)
    show "0 \<le> WIDTH" by (simp add: sizes)
    fix j b assume "0 \<le> j" "j < WIDTH" "?I j b"
    then have "stack_write row j 0 b = Inr (b(row := (b row)(j := 0)))"
      and "?I (j + 1) (b(row := (b row)(j := 0)))"
      using assms by (auto simp: stack_write_def in_grid_def fun_eq_iff)
    then show "\<exists>b'. stack_write row j 0 b = Inr b' \<and> ?I (j + 1) b'"
      by blast
  qed
  then show ?thesis by auto
qed

lemma clearStack_result:
  "clearStack g = Inr (\<lambda>r c. if in_grid r c then 0 else g r c)"
proof -
  let ?body = "\<lambda>row. for_loop 0 WIDTH (\<lambda>col. stack_write row col 0)"
  let ?I = "\<lambda>i g'. g' = (\<lambda>r c. if 0 \<le> r \<and> r < i \<and> 0 \<le> c \<and> c < WIDTH then 0 else g r c)"
  have "\<exists>a'. for_loop 0 HEIGHT ?body g = Inr a' \<and> ?I HEIGHT a'"
  proof (rule for_loop_rule[where I = ?I])
    show "?I 0 g" by (simp add: fun_eq_iff)
    show "0 \<le> HEIGHT" by (simp add: sizes)
    fix j b assume "0 \<le> j" "j < HEIGHT" "?I j b"
    then have "?body j b = Inr (\<lambda>r c. if r = j \<and> 0 \<le> c \<and> c < WIDTH then 0 else b r c)"
      and "?I (j + 1) (\<lambda>r c. if r = j \<and> 0 \<le> c \<and> c < WIDTH then 0 else b r c)"
      by (auto simp: clearRow_result fun_eq_iff)
    then show "\<exists>b'. ?body j b = Inr b' \<and> ?I (j + 1) b'"
      by blast
  qed
  then show ?thesis by (auto simp: clearStack_def in_grid_def)
qed

subsection \<open>What dropBlock returns\<close>

lemma less_Suc_int: "(c::int) < j + 1 \<longleftrightarrow> c < j \<or> c = j"
  by auto

lemma dropCol_step:
  assumes row: "0 \<le> blockRow s" "blockRow s < HEIGHT"
    and g: "g = (\<lambda>row col. if row = blockRow s \<and> blockPos s \<le> col \<and> col < j \<and> lands s col
                 then 1 else stack s row col)"
    and j: "blockPos s \<le> j"
  shows "dropCol (blockRow s) j (g, pl) =
    Inr ((\<lambda>row col. if row = blockRow s \<and> blockPos s \<le> col \<and> col < j + 1 \<and> lands s col
                 then 1 else stack s row col), pl \<or> lands s j)"
proof (cases "lands s j")
  case True
  then have inr: "0 \<le> j" "j < WIDTH" by (auto simp: lands_def)
  have test: "(if blockRow s = 0 then Inr True
             else seq (stack_read g (blockRow s - 1) j) (\<lambda>v. Inr (v = 1))) = Inr True"
    using True row inr by (auto simp: lands_def stack_read_def in_grid_def g)
  have wr: "stack_write (blockRow s) j 1 g = Inr (g(blockRow s := (g (blockRow s))(j := 1)))"
    using row inr by (simp add: stack_write_def in_grid_def)
  have "g(blockRow s := (g (blockRow s))(j := 1)) =
    (\<lambda>row col. if row = blockRow s \<and> blockPos s \<le> col \<and> col < j + 1 \<and> lands s col
                 then 1 else stack s row col)"
    using True j by (auto simp: g fun_eq_iff)
  then show ?thesis
    unfolding dropCol_def fst_conv test using True inr wr by simp
next
  case False
  have same: "(\<lambda>row col. if row = blockRow s \<and> blockPos s \<le> col \<and> col < j + 1 \<and> lands s col
                 then 1 else stack s row col) = g"
    using False by (auto simp: g fun_eq_iff less_Suc_int)
  show ?thesis
  proof (cases "0 \<le> j \<and> j < WIDTH")
    case True
    with False have r0: "blockRow s \<noteq> 0" and below: "stack s (blockRow s - 1) j \<noteq> 1"
      by (auto simp: lands_def)
    have "stack_read g (blockRow s - 1) j = Inr (stack s (blockRow s - 1) j)"
      using row r0 True by (auto simp: stack_read_def in_grid_def g)
    then show ?thesis using False True r0 below same by (simp add: dropCol_def)
  next
    case False
    then show ?thesis using \<open>\<not> lands s j\<close> same by (auto simp: dropCol_def)
  qed
qed

lemma dropCols_result:
  assumes row: "0 \<le> blockRow s" "blockRow s < HEIGHT"
  shows "dropCols s = Inr (landGrid s, anyPlaced s)"
proof (cases "blockRow s = 0 \<or> stackHeight s > 0")
  case False
  then show ?thesis by (auto simp: dropCols_def landGrid_def anyPlaced_iff)
next
  case True
  let ?G = "\<lambda>j row col. if row = blockRow s \<and> blockPos s \<le> col \<and> col < j \<and> lands s col
               then 1 else stack s row col"
  let ?I = "\<lambda>j gp. gp = (?G j, \<exists>col. blockPos s \<le> col \<and> col < j \<and> lands s col)"
  have "\<exists>a'. for_loop (blockPos s) (blockPos s + BLOCK_WIDTH) (dropCol (blockRow s))
          (stack s, False) = Inr a' \<and> ?I (blockPos s + BLOCK_WIDTH) a'"
  proof (rule for_loop_rule[where I = ?I])
    show "?I (blockPos s) (stack s, False)" by (auto simp: fun_eq_iff)
    show "blockPos s \<le> blockPos s + BLOCK_WIDTH" by (simp add: sizes)
    fix j b assume j: "blockPos s \<le> j" "j < blockPos s + BLOCK_WIDTH" and b: "?I j b"
    have "dropCol (blockRow s) j b =
        Inr (?G (j + 1), (\<exists>col. blockPos s \<le> col \<and> col < j \<and> lands s col) \<or> lands s j)"
      unfolding b using row j(1) by (intro dropCol_step) auto
    moreover have "((\<exists>col. blockPos s \<le> col \<and> col < j \<and> lands s col) \<or> lands s j) =
        (\<exists>col. blockPos s \<le> col \<and> col < j + 1 \<and> lands s col)"
      unfolding less_Suc_int using j(1) by blast
    ultimately show "\<exists>b'. dropCol (blockRow s) j b = Inr b' \<and> ?I (j + 1) b'"
      by simp
  qed
  then show ?thesis using True
    by (auto simp: dropCols_def landGrid_def anyPlaced_iff span_def)
qed

lemma printRow_ok:
  assumes "0 \<le> row" "row < HEIGHT"
  shows "\<exists>out. printRow g row = Inr out"
  unfolding printRow_def
  using for_loop_rule[of "\<lambda>j b. True" 0 "[]" WIDTH
      "\<lambda>col out. seq (stack_read g row col) (\<lambda>v. Inr (out @ [v]))"] assms
  by (auto simp: sizes stack_read_def in_grid_def)

lemma landGrid_missed: "\<not> anyPlaced s \<Longrightarrow> landGrid s = stack s"
  by (auto simp: anyPlaced_iff landGrid_def fun_eq_iff)

text \<open>What \<^verbatim>\<open>dropBlock\<close> returns, case by case.\<close>

lemma dropBlock_result:
  assumes row: "0 \<le> blockRow s" "blockRow s < HEIGHT"
  shows "dropBlock rnd s =
    Inr (if \<not> anyPlaced s \<and> blockRow s > 0 then s\<lparr>blockMoving := False, gameOver := True\<rparr>
         else if max (stackHeight s) (blockRow s + 1) \<ge> HEIGHT
           then s\<lparr>blockMoving := False, stack := landGrid s,
                  stackHeight := max (stackHeight s) (blockRow s + 1), gameOver := True\<rparr>
         else s\<lparr>blockMoving := True, stack := landGrid s,
                stackHeight := max (stackHeight s) (blockRow s + 1),
                blockRow := blockRow s + 1, blockPos := rnd,
                moveDelay := max 50 (moveDelay s - 10)\<rparr>)"
proof -
  have "landGrid (s\<lparr>blockMoving := False\<rparr>) = landGrid s"
    and "anyPlaced (s\<lparr>blockMoving := False\<rparr>) = anyPlaced s"
    by (simp_all add: landGrid_def anyPlaced_iff span_def lands_def cong: if_cong)
  then have dc: "dropCols (s\<lparr>blockMoving := False\<rparr>) = Inr (landGrid s, anyPlaced s)"
    using dropCols_result[of "s\<lparr>blockMoving := False\<rparr>"] row by simp
  obtain out where pr: "printRow (landGrid s) (blockRow s) = Inr out"
    using printRow_ok[OF row] by blast
  show ?thesis
    using pr by (auto simp: dropBlock_def dc Let_def landGrid_missed max_def)
qed

subsection \<open>The invariant of the game\<close>

lemma resetGame_result:
  "\<exists>m. resetGame rnd s =
     Inr (s\<lparr>stack := (\<lambda>r c. if in_grid r c then 0 else stack s r c), blockPos := rnd,
           blockRow := 0, stackHeight := 0, gameOver := False, blockMoving := True,
           moveDelay := 200, moveRight := True, testMode := False, testRow := 0,
           matrix := m\<rparr>)"
proof -
  let ?s1 = "s\<lparr>stack := (\<lambda>r c. if in_grid r c then 0 else stack s r c), blockPos := rnd,
           blockRow := 0, stackHeight := 0, gameOver := False, blockMoving := True,
           moveDelay := 200, moveRight := True, testMode := False, testRow := 0\<rparr>"
  obtain m where "updateDisplay ?s1 = Inr (?s1\<lparr>matrix := m\<rparr>)"
    using updateDisplay_ok by blast
  then show ?thesis by (auto simp: resetGame_def clearStack_result)
qed

lemma resetGame_fresh:
  assumes "valid_random rnd"
  shows "\<exists>s'. resetGame rnd s = Inr s' \<and> fresh s' \<and> game_inv s' \<and> testRow s' = 0 \<and> moveRight s'
    \<and> lastMove s' = lastMove s"
proof -
  obtain m where "resetGame rnd s =
     Inr (s\<lparr>stack := (\<lambda>r c. if in_grid r c then 0 else stack s r c), blockPos := rnd,
           blockRow := 0, stackHeight := 0, gameOver := False, blockMoving := True,
           moveDelay := 200, moveRight := True, testMode := False, testRow := 0,
           matrix := m\<rparr>)"
    using resetGame_result by blast
  then show ?thesis using assms
    by (auto simp: fresh_iff game_inv_iff valid_random_def sizes in_grid_def)
qed

lemma game_inv_frame [simp]:
  "game_inv (s\<lparr>matrix := m\<rparr>) = game_inv s"
  "game_inv (s\<lparr>lastMove := t\<rparr>) = game_inv s"
  "game_inv (s\<lparr>testMode := b\<rparr>) = game_inv s"
  "game_inv (s\<lparr>moveRight := b\<rparr>) = game_inv s"
  by (simp_all add: game_inv_iff)

lemma game_inv_testRow:
  "game_inv s \<Longrightarrow> 0 \<le> t \<Longrightarrow> t < HEIGHT \<Longrightarrow> game_inv (s\<lparr>testRow := t\<rparr>)"
  by (simp add: game_inv_iff)

lemma smod_HEIGHT:
  "0 \<le> t \<Longrightarrow> (t + 1) smod HEIGHT = (t + 1) mod HEIGHT"
  by (simp add: signed_modulo_int_def sizes sgn_if)

lemma advance_in_range:
  "0 \<le> t \<Longrightarrow> 0 \<le> (t + 1) smod HEIGHT \<and> (t + 1) smod HEIGHT < HEIGHT"
  by (simp add: smod_HEIGHT) (simp add: sizes)

lemma moveBlock_range:
  "0 \<le> blockPos (moveBlock s) \<and> blockPos (moveBlock s) \<le> WIDTH - BLOCK_WIDTH"
  by (simp add: moveBlock_def Let_def sizes)

lemma moveBlock_frame:
  "moveBlock s = s\<lparr>blockPos := blockPos (moveBlock s), moveRight := moveRight (moveBlock s)\<rparr>"
  by (simp add: moveBlock_def Let_def)

lemma game_inv_moveBlock: "game_inv s \<Longrightarrow> game_inv (moveBlock s)"
  using moveBlock_range[of s]
  by (subst moveBlock_frame) (simp add: game_inv_iff)

lemma game_inv_dropBlock:
  assumes inv: "game_inv s" and play: "\<not> gameOver s" and rnd: "valid_random rnd"
  shows "\<exists>s'. dropBlock rnd s = Inr s' \<and> game_inv s'"
proof -
  from inv play have row: "0 \<le> blockRow s" "blockRow s < HEIGHT"
    and h: "stackHeight s = blockRow s"
    and pos: "0 \<le> blockPos s" "blockPos s \<le> WIDTH - BLOCK_WIDTH"
    and bits: "\<And>r c. in_grid r c \<Longrightarrow> stack s r c = 0 \<or> stack s r c = 1"
    and filled: "\<And>r. 0 \<le> r \<Longrightarrow> r < HEIGHT \<Longrightarrow>
         (\<exists>c. 0 \<le> c \<and> c < WIDTH \<and> stack s r c = 1) \<longleftrightarrow> r < stackHeight s"
    and delay: "50 \<le> moveDelay s" "moveDelay s \<le> 200"
    and trow: "0 \<le> testRow s" "testRow s < HEIGHT"
    by (auto simp: game_inv_iff)
  note res = dropBlock_result[OF row, of rnd]
  show ?thesis
  proof (cases "\<not> anyPlaced s \<and> blockRow s > 0")
    case True
    then show ?thesis using res inv by (auto simp: game_inv_iff)
  next
    case False
    have placed: "anyPlaced s"
    proof (cases "blockRow s = 0")
      case True
      then have "span s (blockPos s) \<and> lands s (blockPos s)"
        using pos by (simp add: span_def lands_def sizes)
      then show ?thesis using True by (auto simp: anyPlaced_iff)
    next
      case False
      with \<open>\<not> (\<not> anyPlaced s \<and> blockRow s > 0)\<close> row show ?thesis by auto
    qed
    then obtain c0 where c0: "span s c0" "lands s c0"
      and guard: "blockRow s = 0 \<or> stackHeight s > 0"
      by (auto simp: anyPlaced_iff)
    have lbits: "\<And>r c. in_grid r c \<Longrightarrow> landGrid s r c = 0 \<or> landGrid s r c = 1"
      using bits by (simp add: landGrid_def)
    have lfilled: "(\<exists>c. 0 \<le> c \<and> c < WIDTH \<and> landGrid s r c = 1) \<longleftrightarrow> r < blockRow s + 1"
      if r: "0 \<le> r" "r < HEIGHT" for r
    proof (cases "r = blockRow s")
      case True
      have "0 \<le> c0 \<and> c0 < WIDTH \<and> landGrid s r c0 = 1"
        using c0 guard True by (simp add: landGrid_def lands_def)
      then show ?thesis using True by auto
    next
      case False
      then have "landGrid s r c = stack s r c" for c by (simp add: landGrid_def)
      then show ?thesis using filled[OF r] h False by auto
    qed
    have mx: "max (stackHeight s) (blockRow s + 1) = blockRow s + 1"
      using h by simp
    show ?thesis
    proof (cases "blockRow s + 1 \<ge> HEIGHT")
      case True
      have "dropBlock rnd s = Inr (s\<lparr>blockMoving := False, stack := landGrid s,
                  stackHeight := blockRow s + 1, gameOver := True\<rparr>)"
        using res False True mx by simp
      moreover have "game_inv (s\<lparr>blockMoving := False, stack := landGrid s,
                  stackHeight := blockRow s + 1, gameOver := True\<rparr>)"
        unfolding game_inv_iff using pos row lbits lfilled delay trow by simp
      ultimately show ?thesis by blast
    next
      case False
      have "dropBlock rnd s = Inr (s\<lparr>blockMoving := True, stack := landGrid s,
                stackHeight := blockRow s + 1,
                blockRow := blockRow s + 1, blockPos := rnd,
                moveDelay := max 50 (moveDelay s - 10)\<rparr>)"
        using res \<open>\<not> (\<not> anyPlaced s \<and> blockRow s > 0)\<close> False mx by simp
      moreover have "game_inv (s\<lparr>blockMoving := True, stack := landGrid s,
                stackHeight := blockRow s + 1,
                blockRow := blockRow s + 1, blockPos := rnd,
                moveDelay := max 50 (moveDelay s - 10)\<rparr>)"
        unfolding game_inv_iff using rnd row lbits lfilled delay trow False
        by (simp add: valid_random_def)
      ultimately show ?thesis by blast
    qed
  qed
qed

subsection \<open>The parts of a pass of the loop\<close>

lemma andThen_Returns:
  "andThen m k = Returns s' \<longleftrightarrow> (\<exists>s1. m = Inr s1 \<and> k s1 = Returns s')"
  by (cases m) (simp_all add: andThen_def)

lemma andThen_Inr [simp]: "andThen (Inr s) k = k s"
  by (simp add: andThen_def)

lemma awaitRelease_Returns: "awaitRelease inp s = Returns s' \<Longrightarrow> s' = s"
  by (simp add: awaitRelease_def split: option.splits)

lemma awaitRelease_released: "released inp \<Longrightarrow> awaitRelease inp s = Returns s"
  using waitRelease_returns[of "buttonLow inp" 2]
  by (auto simp: awaitRelease_def released_def split: option.splits)

lemma awaitRelease_held: "\<not> released inp \<Longrightarrow> awaitRelease inp s = Hangs"
proof -
  assume held: "\<not> released inp"
  have "waitRelease (buttonLow inp) 2 = None"
  proof (cases "waitRelease (buttonLow inp) 2")
    case (Some n)
    then obtain j where "2 \<le> j" "\<not> buttonLow inp j"
      using waitRelease_Some by blast
    moreover from \<open>2 \<le> j\<close> have "2 + (j - 2) = j" by arith
    ultimately have "\<not> buttonLow inp (2 + (j - 2))" by metis
    with held show ?thesis unfolding released_def by blast
  qed simp
  then show ?thesis by (simp add: awaitRelease_def)
qed

lemma awaitRelease_no_fault: "awaitRelease inp s \<noteq> Faults e"
  by (simp add: awaitRelease_def split: option.splits)

lemma updateDisplay_Inr: "updateDisplay s = Inr s' \<Longrightarrow> \<exists>m. s' = s\<lparr>matrix := m\<rparr>"
  using updateDisplay_ok[of s] by auto

lemma handleSerial_None: "serialIn inp = None \<Longrightarrow> handleSerial inp s = Inr s"
  by (simp add: handleSerial_def)

lemma handleSerial_enter:
  assumes "serialIn inp = Some (CHR ''t'')" "\<not> testMode s"
  shows "\<exists>m. handleSerial inp s = Inr (s\<lparr>testMode := True, testRow := 0, matrix := m\<rparr>)"
  using updateDisplay_ok[of "s\<lparr>testMode := True, testRow := 0\<rparr>"] assms
  by (auto simp: handleSerial_def Let_def)

lemma handleSerial_exit:
  assumes "serialIn inp = Some (CHR ''t'')" "testMode s"
  shows "\<exists>s0 m. resetGame (rndReset inp) (s\<lparr>testMode := False\<rparr>) = Inr s0 \<and>
    handleSerial inp s = Inr (s0\<lparr>matrix := m\<rparr>)"
proof -
  obtain s0 where s0: "resetGame (rndReset inp) (s\<lparr>testMode := False\<rparr>) = Inr s0"
    using resetGame_result[of "rndReset inp" "s\<lparr>testMode := False\<rparr>"] by blast
  obtain m where "updateDisplay s0 = Inr (s0\<lparr>matrix := m\<rparr>)"
    using updateDisplay_ok by blast
  with s0 show ?thesis using assms
    by (auto simp: handleSerial_def Let_def)
qed

lemma handleSerial_next:
  assumes "serialIn inp = Some (CHR ''n'')" "testMode s"
  shows "\<exists>m. handleSerial inp s =
    Inr (s\<lparr>testRow := (testRow s + 1) smod HEIGHT, matrix := m\<rparr>)"
  using updateDisplay_ok[of "s\<lparr>testRow := (testRow s + 1) smod HEIGHT\<rparr>"] assms
  by (auto simp: handleSerial_def)

lemma handleSerial_other:
  assumes "serialIn inp = Some c" "c \<noteq> CHR ''t''" "\<not> (testMode s \<and> c = CHR ''n'')"
  shows "\<exists>m. handleSerial inp s = Inr (s\<lparr>matrix := m\<rparr>)"
  using updateDisplay_ok[of s] assms
  by (auto simp: handleSerial_def)

lemma testModePass_Returns:
  assumes "testModePass inp s = Returns s'"
  shows "if pressed inp
    then \<exists>m. s' = s\<lparr>testRow := (testRow s + 1) smod HEIGHT, matrix := m\<rparr>
    else s' = s"
  using assms
  by (auto simp: testModePass_def andThen_Returns dest!: updateDisplay_Inr awaitRelease_Returns
      split: if_splits)

lemma gameOverPass_Returns:
  assumes "gameOverPass inp s = Returns s'"
  shows "\<exists>m. if pressed inp then resetGame (rndReset inp) (s\<lparr>matrix := m\<rparr>) = Inr s'
    else s' = s\<lparr>matrix := m\<rparr>"
  using assms
  by (auto simp: gameOverPass_def andThen_Returns dest!: updateDisplay_Inr awaitRelease_Returns
      split: if_splits)

lemma motionPass_result:
  "\<exists>m. motionPass inp s =
     Inr (if moveDue inp s then (moveBlock s)\<lparr>lastMove := millisB inp, matrix := m\<rparr> else s)"
  using updateDisplay_ok[of "(moveBlock s)\<lparr>lastMove := millisB inp\<rparr>"]
  by (auto simp: motionPass_def)

lemma buttonPass_Returns:
  assumes "buttonPass inp s = Returns s'"
  shows "if pressed inp
    then \<exists>s3 m. dropBlock (rndDrop inp) s = Inr s3 \<and> s' = s3\<lparr>matrix := m\<rparr>
    else s' = s"
  using assms
  by (auto simp: buttonPass_def andThen_Returns seq_def
      dest!: updateDisplay_Inr awaitRelease_Returns split: if_splits sum.splits)

lemma andThen_Faults:
  "andThen m k = Faults e \<longleftrightarrow> m = Inl e \<or> (\<exists>s1. m = Inr s1 \<and> k s1 = Faults e)"
  by (cases m) (simp_all add: andThen_def)

lemma handleSerial_result:
  "\<exists>s1. handleSerial inp s = Inr s1 \<and>
     (if serialIn inp = Some (CHR ''t'') \<and> testMode s
      then \<exists>s0 m. resetGame (rndReset inp) (s\<lparr>testMode := False\<rparr>) = Inr s0 \<and>
             s1 = s0\<lparr>matrix := m\<rparr>
      else \<exists>m. s1 = s\<lparr>testMode := (testMode s \<or> serialIn inp = Some (CHR ''t'')),
             testRow := (if serialIn inp = Some (CHR ''t'') then 0
                         else if serialIn inp = Some (CHR ''n'') \<and> testMode s
                           then (testRow s + 1) smod HEIGHT
                         else testRow s),
             matrix := m\<rparr>)"
proof (cases "serialIn inp = Some (CHR ''t'') \<and> testMode s")
  case True
  with handleSerial_exit[of inp s] show ?thesis by auto
next
  case False
  let ?X = "\<lambda>m. s\<lparr>testMode := (testMode s \<or> serialIn inp = Some (CHR ''t'')),
             testRow := (if serialIn inp = Some (CHR ''t'') then 0
                         else if serialIn inp = Some (CHR ''n'') \<and> testMode s
                           then (testRow s + 1) smod HEIGHT
                         else testRow s),
             matrix := m\<rparr>"
  have "\<exists>m. handleSerial inp s = Inr (?X m)"
  proof (cases "serialIn inp")
    case None
    then have "s = ?X (matrix s)" by (intro state.equality) simp_all
    then have "Inr s = (Inr (?X (matrix s)) :: fault + state)" by (rule arg_cong)
    with handleSerial_None[OF None, of s] show ?thesis by (intro exI[of _ "matrix s"]) simp
  next
    case (Some c)
    consider (enter) "c = CHR ''t''" "\<not> testMode s"
      | (adv) "c = CHR ''n''" "testMode s"
      | (other) "c \<noteq> CHR ''t''" "\<not> (testMode s \<and> c = CHR ''n'')"
      using False Some by auto
    then show ?thesis
    proof cases
      case enter
      then obtain m where
        hs: "handleSerial inp s = Inr (s\<lparr>testMode := True, testRow := 0, matrix := m\<rparr>)"
        using Some handleSerial_enter[of inp s] by auto
      have "s\<lparr>testMode := True, testRow := 0, matrix := m\<rparr> = ?X m"
        using enter Some by (intro state.equality) simp_all
      with hs show ?thesis by (intro exI[of _ m]) simp
    next
      case adv
      then obtain m where
        hs: "handleSerial inp s =
          Inr (s\<lparr>testRow := (testRow s + 1) smod HEIGHT, matrix := m\<rparr>)"
        using Some handleSerial_next[of inp s] by auto
      have "s\<lparr>testRow := (testRow s + 1) smod HEIGHT, matrix := m\<rparr> = ?X m"
        using adv Some by (intro state.equality) simp_all
      with hs show ?thesis by (intro exI[of _ m]) simp
    next
      case other
      then obtain m where hs: "handleSerial inp s = Inr (s\<lparr>matrix := m\<rparr>)"
        using Some handleSerial_other[of inp c s] by blast
      have "s\<lparr>matrix := m\<rparr> = ?X m"
        using other Some by (intro state.equality) auto
      with hs show ?thesis by (intro exI[of _ m]) simp
    qed
  qed
  then obtain m where hs: "handleSerial inp s = Inr (?X m)" ..
  have "\<exists>m'. ?X m = ?X m'" by (rule exI[of _ m]) (rule refl)
  with False have "if serialIn inp = Some (CHR ''t'') \<and> testMode s
      then \<exists>s0 m'. resetGame (rndReset inp) (s\<lparr>testMode := False\<rparr>) = Inr s0 \<and>
             ?X m = s0\<lparr>matrix := m'\<rparr>
      else \<exists>m'. ?X m = ?X m'"
    by (simp only: if_False)
  with hs show ?thesis by (intro exI[of _ "?X m"] conjI)
qed

subsection \<open>The invariant over the passes\<close>

lemma loop_Returns:
  assumes "loop inp s = Returns s'"
  shows "\<exists>s1. handleSerial inp s = Inr s1 \<and>
     (if testMode s1 then testModePass inp s1 = Returns s'
      else if gameOver s1 then gameOverPass inp s1 = Returns s'
      else \<exists>s2. motionPass inp s1 = Inr s2 \<and> buttonPass inp s2 = Returns s')"
  using assms by (auto simp: loop_def andThen_Returns split: if_splits)

lemma handleSerial_inv:
  assumes "game_inv s" "valid_random (rndReset inp)" "handleSerial inp s = Inr s1"
  shows "game_inv s1"
proof (cases "serialIn inp = Some (CHR ''t'') \<and> testMode s")
  case True
  then obtain s0 m where "resetGame (rndReset inp) (s\<lparr>testMode := False\<rparr>) = Inr s0"
    "s1 = s0\<lparr>matrix := m\<rparr>"
    using handleSerial_result[of inp s] assms(3) by auto
  then show ?thesis using resetGame_fresh[OF assms(2), of "s\<lparr>testMode := False\<rparr>"] by auto
next
  case False
  from assms(1) have t: "0 \<le> testRow s" "testRow s < HEIGHT" by (auto simp: game_inv_iff)
  let ?t = "if serialIn inp = Some (CHR ''t'') then 0
                         else if serialIn inp = Some (CHR ''n'') \<and> testMode s
                           then (testRow s + 1) smod HEIGHT
                         else testRow s"
  from t have "0 \<le> ?t" and "?t < HEIGHT"
    using advance_in_range[of "testRow s"] by (auto simp: sizes)
  then have "game_inv (s\<lparr>testRow := ?t\<rparr>)" using assms(1) by (intro game_inv_testRow)
  moreover obtain m where "s1 = s\<lparr>testMode := (testMode s \<or> serialIn inp = Some (CHR ''t'')),
             testRow := ?t, matrix := m\<rparr>"
    using handleSerial_result[of inp s] assms(3) False by auto
  ultimately show ?thesis by (simp add: game_inv_iff)
qed

lemma testModePass_inv:
  assumes "game_inv s" "testModePass inp s = Returns s'"
  shows "game_inv s'"
proof -
  from assms(1) have "0 \<le> testRow s" by (simp add: game_inv_iff)
  then have "game_inv (s\<lparr>testRow := (testRow s + 1) smod HEIGHT\<rparr>)"
    using advance_in_range[of "testRow s"] assms(1) by (intro game_inv_testRow) auto
  then show ?thesis using testModePass_Returns[OF assms(2)] assms(1)
    by (auto split: if_splits)
qed

lemma gameOverPass_inv:
  assumes "game_inv s" "valid_random (rndReset inp)" "gameOverPass inp s = Returns s'"
  shows "game_inv s'"
proof -
  obtain m where m: "if pressed inp then resetGame (rndReset inp) (s\<lparr>matrix := m\<rparr>) = Inr s'
    else s' = s\<lparr>matrix := m\<rparr>"
    using gameOverPass_Returns[OF assms(3)] by blast
  show ?thesis
  proof (cases "pressed inp")
    case True
    with m resetGame_fresh[OF assms(2), of "s\<lparr>matrix := m\<rparr>"] show ?thesis by auto
  next
    case False
    with m assms(1) show ?thesis by simp
  qed
qed

lemma motionPass_inv:
  assumes "game_inv s" "motionPass inp s = Inr s'"
  shows "game_inv s' \<and> gameOver s' = gameOver s"
proof -
  have "gameOver (moveBlock s) = gameOver s"
    by (subst moveBlock_frame) simp
  then show ?thesis
    using motionPass_result[of inp s] assms game_inv_moveBlock[of s]
    by (auto split: if_splits)
qed

lemma buttonPass_inv:
  assumes "game_inv s" "\<not> gameOver s" "valid_random (rndDrop inp)"
    "buttonPass inp s = Returns s'"
  shows "game_inv s'"
proof (cases "pressed inp")
  case True
  then obtain s3 m where "dropBlock (rndDrop inp) s = Inr s3" "s' = s3\<lparr>matrix := m\<rparr>"
    using buttonPass_Returns[OF assms(4)] by auto
  then show ?thesis using game_inv_dropBlock[OF assms(1-3)] by auto
next
  case False
  then show ?thesis using buttonPass_Returns[OF assms(4)] assms(1) by simp
qed

lemma loop_inv:
  assumes "game_inv s" "valid_inputs inp" "loop inp s = Returns s'"
  shows "game_inv s'"
proof -
  from assms(2) have rnd: "valid_random (rndReset inp)" "valid_random (rndDrop inp)"
    by (auto simp: valid_inputs_def)
  obtain s1 where s1: "handleSerial inp s = Inr s1"
    and rest: "if testMode s1 then testModePass inp s1 = Returns s'
      else if gameOver s1 then gameOverPass inp s1 = Returns s'
      else \<exists>s2. motionPass inp s1 = Inr s2 \<and> buttonPass inp s2 = Returns s'"
    using loop_Returns[OF assms(3)] by blast
  have i1: "game_inv s1" using handleSerial_inv[OF assms(1) rnd(1) s1] .
  consider (test) "testMode s1" | (over) "\<not> testMode s1" "gameOver s1"
    | (play) "\<not> testMode s1" "\<not> gameOver s1" by blast
  then show ?thesis
  proof cases
    case test
    with rest i1 show ?thesis by (auto intro: testModePass_inv)
  next
    case over
    with rest i1 rnd show ?thesis by (auto intro: gameOverPass_inv)
  next
    case play
    with rest obtain s2 where s2: "motionPass inp s1 = Inr s2" "buttonPass inp s2 = Returns s'"
      by auto
    from motionPass_inv[OF i1 s2(1)] play have "game_inv s2" "\<not> gameOver s2" by auto
    then show ?thesis using buttonPass_inv[OF _ _ rnd(2) s2(2)] by blast
  qed
qed

lemma loop_no_fault:
  assumes "game_inv s" "valid_inputs inp"
  shows "loop inp s \<noteq> Faults e"
proof
  assume f: "loop inp s = Faults e"
  from assms(2) have rnd: "valid_random (rndReset inp)" "valid_random (rndDrop inp)"
    by (auto simp: valid_inputs_def)
  obtain s1 where s1: "handleSerial inp s = Inr s1"
    using handleSerial_result[of inp s] by blast
  have i1: "game_inv s1" using handleSerial_inv[OF assms(1) rnd(1) s1] .
  consider (test) "testMode s1" | (over) "\<not> testMode s1" "gameOver s1"
    | (play) "\<not> testMode s1" "\<not> gameOver s1" by blast
  then show False
  proof cases
    case test
    with f s1 have "testModePass inp s1 = Faults e" by (simp add: loop_def)
    then show False
      using updateDisplay_ok[of "s1\<lparr>testRow := (testRow s1 + 1) smod HEIGHT\<rparr>"]
      by (auto simp: testModePass_def andThen_Faults awaitRelease_no_fault split: if_splits)
  next
    case over
    with f s1 have g: "gameOverPass inp s1 = Faults e" by (simp add: loop_def)
    obtain m where m: "updateDisplay (s1\<lparr>matrix := []\<rparr>) = Inr (s1\<lparr>matrix := m\<rparr>)"
      using updateDisplay_ok[of "s1\<lparr>matrix := []\<rparr>"] by auto
    obtain s0 where "resetGame (rndReset inp) (s1\<lparr>matrix := m\<rparr>) = Inr s0"
      using resetGame_result by blast
    with g m show False
      by (auto simp: gameOverPass_def andThen_Faults awaitRelease_no_fault split: if_splits)
  next
    case play
    obtain s2 where s2: "motionPass inp s1 = Inr s2"
      using motionPass_result[of inp s1] by blast
    from motionPass_inv[OF i1 s2] play have i2: "game_inv s2" "\<not> gameOver s2" by auto
    obtain s3 where s3: "dropBlock (rndDrop inp) s2 = Inr s3"
      using game_inv_dropBlock[OF i2 rnd(2)] by blast
    obtain m where "updateDisplay s3 = Inr (s3\<lparr>matrix := m\<rparr>)"
      using updateDisplay_ok by blast
    with s3 have "buttonPass inp s2 \<noteq> Faults e"
      by (auto simp: buttonPass_def andThen_Faults awaitRelease_no_fault)
    with f s1 s2 play show False by (simp add: loop_def)
  qed
qed

lemma passes_inv:
  assumes "game_inv s" "\<forall>inp \<in> set inps. valid_inputs inp"
  shows "passes inps s \<noteq> Faults e \<and> (passes inps s = Returns s' \<longrightarrow> game_inv s')"
  using assms
proof (induction inps arbitrary: s)
  case Nil
  then show ?case by auto
next
  case (Cons inp inps)
  then have v: "valid_inputs inp" by simp
  show ?case
  proof (cases "loop inp s")
    case (Returns s1)
    then have "game_inv s1" using loop_inv[OF Cons.prems(1) v] by simp
    then show ?thesis using Cons.IH[of s1] Cons.prems(2) Returns by simp
  next
    case (Faults e')
    then show ?thesis using loop_no_fault[OF Cons.prems(1) v] by simp
  next
    case Hangs
    then show ?thesis by simp
  qed
qed

lemma run_invariant:
  assumes "valid_random rnd" "\<forall>inp \<in> set inps. valid_inputs inp"
  shows "run rnd inps \<noteq> Faults e \<and> (run rnd inps = Returns s \<longrightarrow> game_inv s)"
proof -
  obtain s0 where "setupSketch rnd = Inr s0" "game_inv s0"
    using resetGame_fresh[OF assms(1), of "boot\<lparr>matrix := []\<rparr>"] by (auto simp: setupSketch_def)
  then show ?thesis using passes_inv[OF _ assms(2), of s0 e s] by (simp add: run_def)
qed

subsection \<open>When a pass returns, and what it leaves alone\<close>

lemma andThen_Hangs:
  "andThen m k = Hangs \<longleftrightarrow> (\<exists>s1. m = Inr s1 \<and> k s1 = Hangs)"
  by (cases m) (simp_all add: andThen_def)

lemma awaitRelease_Hangs: "awaitRelease inp s = Hangs \<longleftrightarrow> \<not> released inp"
  using awaitRelease_released[of inp s] awaitRelease_held[of inp s] by auto

lemma dropBlock_frame:
  assumes "dropBlock rnd s = Inr s'"
  shows "testMode s' = testMode s \<and> testRow s' = testRow s \<and> moveRight s' = moveRight s \<and>
    lastMove s' = lastMove s \<and> matrix s' = matrix s \<and>
    moveDelay s' = (if blockMoving s' then max 50 (moveDelay s - 10) else moveDelay s)"
proof -
  obtain g placed where "dropCols (s\<lparr>blockMoving := False\<rparr>) = Inr (g, placed)"
    using assms by (cases "dropCols (s\<lparr>blockMoving := False\<rparr>)") (auto simp: dropBlock_def)
  then show ?thesis using assms
    by (auto simp: dropBlock_def Let_def seq_def split: if_splits sum.splits)
qed

lemma after_serial:
  assumes "handleSerial inp s = Inr s1"
  shows "testMode s1 = (testMode s \<noteq> (serialIn inp = Some (CHR ''t'')))"
    and "gameOver s1 = (gameOver s \<and> \<not> (serialIn inp = Some (CHR ''t'') \<and> testMode s))"
proof -
  have "testMode s1 = (testMode s \<noteq> (serialIn inp = Some (CHR ''t''))) \<and>
    gameOver s1 = (gameOver s \<and> \<not> (serialIn inp = Some (CHR ''t'') \<and> testMode s))"
  proof (cases "serialIn inp = Some (CHR ''t'') \<and> testMode s")
    case True
    then obtain s0 m where "resetGame (rndReset inp) (s\<lparr>testMode := False\<rparr>) = Inr s0"
      "s1 = s0\<lparr>matrix := m\<rparr>"
      using handleSerial_result[of inp s] assms by auto
    then show ?thesis using True resetGame_result[of "rndReset inp" "s\<lparr>testMode := False\<rparr>"]
      by auto
  next
    case False
    then show ?thesis using handleSerial_result[of inp s] assms by auto
  qed
  then show "testMode s1 = (testMode s \<noteq> (serialIn inp = Some (CHR ''t'')))"
    and "gameOver s1 = (gameOver s \<and> \<not> (serialIn inp = Some (CHR ''t'') \<and> testMode s))"
    by simp_all
qed

lemma loop_Hangs: "loop inp s = Hangs \<Longrightarrow> pressed inp \<and> \<not> released inp"
  by (auto simp: loop_def testModePass_def gameOverPass_def buttonPass_def andThen_Hangs
      awaitRelease_Hangs split: if_splits)

lemma loop_Faults:
  assumes "loop inp s = Faults e"
  shows "callsDrop inp s"
proof -
  obtain s1 where s1: "handleSerial inp s = Inr s1"
    using handleSerial_result[of inp s] by blast
  note as = after_serial[OF s1]
  consider (test) "testMode s1" | (over) "\<not> testMode s1" "gameOver s1"
    | (play) "\<not> testMode s1" "\<not> gameOver s1" by blast
  then show ?thesis
  proof cases
    case test
    with assms s1 have "testModePass inp s1 = Faults e" by (simp add: loop_def)
    then have False
      using updateDisplay_ok[of "s1\<lparr>testRow := (testRow s1 + 1) smod HEIGHT\<rparr>"]
      by (auto simp: testModePass_def andThen_Faults awaitRelease_no_fault split: if_splits)
    then show ?thesis ..
  next
    case over
    with assms s1 have g: "gameOverPass inp s1 = Faults e" by (simp add: loop_def)
    obtain m where m: "updateDisplay (s1\<lparr>matrix := []\<rparr>) = Inr (s1\<lparr>matrix := m\<rparr>)"
      using updateDisplay_ok[of "s1\<lparr>matrix := []\<rparr>"] by auto
    obtain s0 where "resetGame (rndReset inp) (s1\<lparr>matrix := m\<rparr>) = Inr s0"
      using resetGame_result by blast
    with g m have False
      by (auto simp: gameOverPass_def andThen_Faults awaitRelease_no_fault split: if_splits)
    then show ?thesis ..
  next
    case play
    obtain s2 where s2: "motionPass inp s1 = Inr s2"
      using motionPass_result[of inp s1] by blast
    with assms s1 play have "buttonPass inp s2 = Faults e" by (simp add: loop_def)
    then have "pressed inp" by (auto simp: buttonPass_def split: if_splits)
    with play as show ?thesis by (auto simp: callsDrop_def)
  qed
qed

lemma loop_total:
  assumes "\<not> callsDrop inp s \<or> (game_inv s \<and> valid_inputs inp)" "pressed inp \<longrightarrow> released inp"
  shows "\<exists>s'. loop inp s = Returns s'"
proof (cases "loop inp s")
  case (Faults e)
  then show ?thesis using loop_Faults[of inp s e] loop_no_fault[of s inp e] assms(1) by auto
next
  case Hangs
  then show ?thesis using loop_Hangs[of inp s] assms(2) by auto
qed simp

lemma moveBlock_fields:
  "stack (moveBlock s) = stack s" "stackHeight (moveBlock s) = stackHeight s"
  "blockRow (moveBlock s) = blockRow s" "moveDelay (moveBlock s) = moveDelay s"
  "gameOver (moveBlock s) = gameOver s" "blockMoving (moveBlock s) = blockMoving s"
  "testMode (moveBlock s) = testMode s" "testRow (moveBlock s) = testRow s"
  by (subst moveBlock_frame, simp)+

text \<open>A pass that calls neither \<^verbatim>\<open>resetGame\<close> nor \<^verbatim>\<open>dropBlock\<close> leaves the grid, the row of
  the block and the speed as they are.\<close>

lemma loop_quiet:
  assumes ret: "loop inp s = Returns s'" and nr: "\<not> callsReset inp s" and nd: "\<not> callsDrop inp s"
  shows "stack s' = stack s \<and> stackHeight s' = stackHeight s \<and> blockRow s' = blockRow s \<and>
    moveDelay s' = moveDelay s \<and> gameOver s' = gameOver s \<and> blockMoving s' = blockMoving s"
proof -
  obtain s1 where s1: "handleSerial inp s = Inr s1"
    and rest: "if testMode s1 then testModePass inp s1 = Returns s'
      else if gameOver s1 then gameOverPass inp s1 = Returns s'
      else \<exists>s2. motionPass inp s1 = Inr s2 \<and> buttonPass inp s2 = Returns s'"
    using loop_Returns[OF ret] by blast
  note as = after_serial[OF s1]
  from nr have nx: "\<not> (serialIn inp = Some (CHR ''t'') \<and> testMode s)"
    by (auto simp: callsReset_def split: if_splits)
  then have f1: "stack s1 = stack s \<and> stackHeight s1 = stackHeight s \<and> blockRow s1 = blockRow s \<and>
    moveDelay s1 = moveDelay s \<and> gameOver s1 = gameOver s \<and> blockMoving s1 = blockMoving s"
    using handleSerial_result[of inp s] s1 by auto
  consider (test) "testMode s1" | (over) "\<not> testMode s1" "gameOver s1"
    | (play) "\<not> testMode s1" "\<not> gameOver s1" by blast
  then show ?thesis
  proof cases
    case test
    with rest have "testModePass inp s1 = Returns s'" by simp
    from testModePass_Returns[OF this] f1 show ?thesis by (auto split: if_splits)
  next
    case over
    with as nr have "\<not> pressed inp" by (auto simp: callsReset_def split: if_splits)
    moreover from over rest have "gameOverPass inp s1 = Returns s'" by simp
    ultimately show ?thesis using gameOverPass_Returns[of inp s1 s'] f1 by auto
  next
    case play
    with as nd have np: "\<not> pressed inp" by (auto simp: callsDrop_def split: if_splits)
    from play rest obtain s2 where s2: "motionPass inp s1 = Inr s2" "buttonPass inp s2 = Returns s'"
      by auto
    from buttonPass_Returns[OF s2(2)] np have "s' = s2" by simp
    then show ?thesis using motionPass_result[of inp s1] s2(1) f1
      by (auto simp: moveBlock_fields split: if_splits)
  qed
qed

lemma fresh_frame [simp]:
  "fresh (s\<lparr>matrix := m\<rparr>) = fresh s"
  "fresh (s\<lparr>lastMove := t\<rparr>) = fresh s"
  by (simp_all add: fresh_iff)

lemma fresh_moveBlock: "fresh s \<Longrightarrow> fresh (moveBlock s)"
  using moveBlock_range[of s]
  by (subst moveBlock_frame) (simp add: fresh_iff)

text \<open>A pass in test mode, from the state after the serial command.\<close>

lemma testModePass_total:
  assumes "pressed inp \<longrightarrow> released inp"
  shows "\<exists>m. testModePass inp s =
    Returns (s\<lparr>testRow := (if pressed inp then (testRow s + 1) smod HEIGHT else testRow s),
               matrix := m\<rparr>)"
proof (cases "pressed inp")
  case True
  obtain m where "updateDisplay (s\<lparr>testRow := (testRow s + 1) smod HEIGHT\<rparr>) =
      Inr (s\<lparr>testRow := (testRow s + 1) smod HEIGHT, matrix := m\<rparr>)"
    using updateDisplay_ok[of "s\<lparr>testRow := (testRow s + 1) smod HEIGHT\<rparr>"] by auto
  then have "testModePass inp s =
      Returns (s\<lparr>testRow := (testRow s + 1) smod HEIGHT, matrix := m\<rparr>)"
    using True assms by (simp add: testModePass_def awaitRelease_released)
  then show ?thesis using True by (intro exI[of _ m]) simp
next
  case False
  then have "testModePass inp s = Returns (s\<lparr>testRow := testRow s, matrix := matrix s\<rparr>)"
    by (simp add: testModePass_def)
  then show ?thesis using False by (intro exI[of _ "matrix s"]) simp
qed

lemma loop_test:
  assumes tm: "testMode s \<noteq> (serialIn inp = Some (CHR ''t''))"
    and rel: "pressed inp \<longrightarrow> released inp"
  shows "\<exists>m. loop inp s =
    Returns (s\<lparr>testMode := True,
       testRow :=
         (let t = (if serialIn inp = Some (CHR ''t'') then 0
                   else if serialIn inp = Some (CHR ''n'') then (testRow s + 1) smod HEIGHT
                   else testRow s)
          in if pressed inp then (t + 1) smod HEIGHT else t),
       matrix := m\<rparr>)"
proof -
  let ?t = "if serialIn inp = Some (CHR ''t'') then 0
            else if serialIn inp = Some (CHR ''n'') then (testRow s + 1) smod HEIGHT
            else testRow s"
  from tm have nx: "\<not> (serialIn inp = Some (CHR ''t'') \<and> testMode s)" by auto
  then obtain m1 where s1: "handleSerial inp s =
      Inr (s\<lparr>testMode := (testMode s \<or> serialIn inp = Some (CHR ''t'')),
             testRow := (if serialIn inp = Some (CHR ''t'') then 0
                         else if serialIn inp = Some (CHR ''n'') \<and> testMode s
                           then (testRow s + 1) smod HEIGHT
                         else testRow s),
             matrix := m1\<rparr>)" (is "_ = Inr ?s1")
    using handleSerial_result[of inp s] by auto
  have eq1: "?s1 = s\<lparr>testMode := True, testRow := ?t, matrix := m1\<rparr>"
    using tm by (intro state.equality) auto
  obtain m where "testModePass inp ?s1 =
    Returns (?s1\<lparr>testRow := (if pressed inp then (testRow ?s1 + 1) smod HEIGHT else testRow ?s1),
               matrix := m\<rparr>)"
    using testModePass_total[OF rel, of ?s1] by blast
  then have "loop inp s =
    Returns (?s1\<lparr>testRow := (if pressed inp then (testRow ?s1 + 1) smod HEIGHT else testRow ?s1),
               matrix := m\<rparr>)"
    using s1 tm by (simp add: loop_def)
  also have "?s1\<lparr>testRow := (if pressed inp then (testRow ?s1 + 1) smod HEIGHT else testRow ?s1),
               matrix := m\<rparr> =
     s\<lparr>testMode := True, testRow := (let t = ?t in if pressed inp then (t + 1) smod HEIGHT else t),
       matrix := m\<rparr>"
    unfolding eq1 by (simp add: Let_def)
  finally show ?thesis by (intro exI[of _ m])
qed

text \<open>The button after a game over restarts the game.\<close>

lemma loop_restart:
  assumes "gameOver s" "\<not> testMode s" "serialIn inp \<noteq> Some (CHR ''t'')"
    "pressed inp" "released inp"
  shows "\<exists>m s'. resetGame (rndReset inp) (s\<lparr>matrix := m\<rparr>) = Inr s' \<and> loop inp s = Returns s'"
proof -
  obtain m1 where s1: "handleSerial inp s = Inr (s\<lparr>matrix := m1\<rparr>)"
  proof -
    obtain m1 where "handleSerial inp s =
      Inr (s\<lparr>testMode := (testMode s \<or> serialIn inp = Some (CHR ''t'')),
             testRow := (if serialIn inp = Some (CHR ''t'') then 0
                         else if serialIn inp = Some (CHR ''n'') \<and> testMode s
                           then (testRow s + 1) smod HEIGHT
                         else testRow s),
             matrix := m1\<rparr>)" (is "_ = Inr ?s1")
      using handleSerial_result[of inp s] assms(2,3) by auto
    moreover have "?s1 = s\<lparr>matrix := m1\<rparr>"
      using assms(2,3) by (intro state.equality) auto
    ultimately show ?thesis using that by simp
  qed
  obtain m where m: "updateDisplay (s\<lparr>matrix := []\<rparr>) = Inr (s\<lparr>matrix := m\<rparr>)"
    using updateDisplay_ok[of "s\<lparr>matrix := []\<rparr>"] by auto
  obtain s' where s': "resetGame (rndReset inp) (s\<lparr>matrix := m\<rparr>) = Inr s'"
    using resetGame_result by blast
  have "loop inp s = Returns s'"
    using s1 m s' assms by (simp add: loop_def gameOverPass_def awaitRelease_released)
  with s' show ?thesis by blast
qed

text \<open>Leaving test mode resets the game; the pass then goes on with the game.\<close>

lemma loop_exit:
  assumes "testMode s" "serialIn inp = Some (CHR ''t'')" "valid_random (rndReset inp)"
  shows "\<exists>s1. handleSerial inp s = Inr s1 \<and> fresh s1 \<and> game_inv s1 \<and>
    loop inp s = andThen (motionPass inp s1) (buttonPass inp)"
proof -
  obtain s0 m where s0: "resetGame (rndReset inp) (s\<lparr>testMode := False\<rparr>) = Inr s0"
    and s1: "handleSerial inp s = Inr (s0\<lparr>matrix := m\<rparr>)"
    using handleSerial_exit[OF assms(2,1)] by blast
  from resetGame_fresh[OF assms(3), of "s\<lparr>testMode := False\<rparr>"] s0
  have f: "fresh s0" "game_inv s0" by auto
  then have "\<not> testMode s0" "\<not> gameOver s0" by (auto simp: fresh_iff)
  then have "loop inp s = andThen (motionPass inp (s0\<lparr>matrix := m\<rparr>)) (buttonPass inp)"
    using s1 by (simp add: loop_def)
  with s1 f show ?thesis by (intro exI[of _ "s0\<lparr>matrix := m\<rparr>"]) simp
qed

lemma loop_exit_quiet:
  assumes "testMode s" "serialIn inp = Some (CHR ''t'')" "valid_random (rndReset inp)"
    "\<not> pressed inp"
  shows "\<exists>s'. loop inp s = Returns s' \<and> fresh s'"
proof -
  obtain s1 where s1: "fresh s1" "loop inp s = andThen (motionPass inp s1) (buttonPass inp)"
    using loop_exit[OF assms(1-3)] by blast
  obtain m where "motionPass inp s1 =
     Inr (if moveDue inp s1 then (moveBlock s1)\<lparr>lastMove := millisB inp, matrix := m\<rparr> else s1)"
    (is "_ = Inr ?s2")
    using motionPass_result by blast
  then have "loop inp s = Returns ?s2" using s1(2) assms(4) by (simp add: buttonPass_def)
  moreover have "fresh ?s2" using s1(1) fresh_moveBlock[of s1] by simp
  ultimately show ?thesis by blast
qed

text \<open>The speed over the passes of one game.\<close>

lemma loop_moveDelay:
  assumes ret: "loop inp s = Returns s'" and nr: "\<not> callsReset inp s" and d: "50 \<le> moveDelay s"
  shows "50 \<le> moveDelay s' \<and> moveDelay s' \<le> moveDelay s"
proof (cases "callsDrop inp s")
  case False
  with loop_quiet[OF ret nr] d show ?thesis by simp
next
  case True
  obtain s1 where s1: "handleSerial inp s = Inr s1"
    and rest: "if testMode s1 then testModePass inp s1 = Returns s'
      else if gameOver s1 then gameOverPass inp s1 = Returns s'
      else \<exists>s2. motionPass inp s1 = Inr s2 \<and> buttonPass inp s2 = Returns s'"
    using loop_Returns[OF ret] by blast
  note as = after_serial[OF s1]
  from True nr have nx: "\<not> (serialIn inp = Some (CHR ''t'') \<and> testMode s)"
    and p: "pressed inp" "\<not> testMode s" "\<not> gameOver s"
    and nt: "serialIn inp \<noteq> Some (CHR ''t'')"
    by (auto simp: callsReset_def callsDrop_def split: if_splits)
  then have d1: "moveDelay s1 = moveDelay s"
    using handleSerial_result[of inp s] s1 by auto
  from as nt p have "\<not> testMode s1" "\<not> gameOver s1" by auto
  with rest obtain s2 where s2: "motionPass inp s1 = Inr s2" "buttonPass inp s2 = Returns s'"
    by auto
  have d2: "moveDelay s2 = moveDelay s1"
    using motionPass_result[of inp s1] s2(1) by (auto simp: moveBlock_fields split: if_splits)
  from buttonPass_Returns[OF s2(2)] p(1) obtain s3 m where
    s3: "dropBlock (rndDrop inp) s2 = Inr s3" "s' = s3\<lparr>matrix := m\<rparr>" by auto
  from dropBlock_frame[OF s3(1)] d d1 d2 s3(2) show ?thesis by (auto split: if_splits)
qed

lemma passes_moveDelay:
  assumes "passes inps s = Returns s'" "oneGame inps s" "50 \<le> moveDelay s"
  shows "50 \<le> moveDelay s' \<and> moveDelay s' \<le> moveDelay s"
  using assms
proof (induction inps arbitrary: s)
  case Nil
  then show ?case by simp
next
  case (Cons inp inps)
  from Cons.prems(1) obtain s1 where s1: "loop inp s = Returns s1" "passes inps s1 = Returns s'"
    by (cases "loop inp s") auto
  with Cons.prems(2) have g: "\<not> callsReset inp s" "oneGame inps s1" by auto
  from loop_moveDelay[OF s1(1) g(1) Cons.prems(3)]
  have "50 \<le> moveDelay s1" "moveDelay s1 \<le> moveDelay s" by auto
  with Cons.IH[OF s1(2) g(2)] show ?case by auto
qed

subsection \<open>The sample states and inputs\<close>

lemma pressed_press: "pressed press" "released press" "\<not> pressed idle" "\<not> pressed (command c)"
  by (auto simp: pressed_def released_def press_def idle_def command_def)

lemma game_inv_samples: "game_inv secondRow" "game_inv thirdRow" "game_inv lastRow" "game_inv boot"
  by (auto simp: game_inv_iff secondRow_def thirdRow_def lastRow_def boot_def sizes in_grid_def
      intro: exI[of _ 2] exI[of _ 0])

lemma anyPlaced_samples: "anyPlaced secondRow" "anyPlaced lastRow" "\<not> anyPlaced thirdRow"
proof -
  have "span secondRow 2 \<and> lands secondRow 2"
    by (simp add: span_def lands_def secondRow_def boot_def sizes)
  then show "anyPlaced secondRow"
    unfolding anyPlaced_iff by (intro conjI exI[of _ 2]) (simp_all add: secondRow_def boot_def)
  have "span lastRow 0 \<and> lands lastRow 0"
    by (simp add: span_def lands_def lastRow_def boot_def sizes)
  then show "anyPlaced lastRow"
    unfolding anyPlaced_iff by (intro conjI exI[of _ 0]) (simp_all add: lastRow_def boot_def)
  show "\<not> anyPlaced thirdRow"
    by (simp add: anyPlaced_iff span_def lands_def thirdRow_def boot_def sizes)
qed

lemma callsReset_samples:
  "\<not> callsReset idle s" "\<not> callsDrop idle s"
  "\<not> gameOver s \<Longrightarrow> \<not> callsReset press s"
  by (auto simp: callsReset_def callsDrop_def idle_def press_def pressed_def)

lemma valid_samples: "valid_inputs idle" "valid_inputs press" "valid_inputs (command c)"
  by (simp_all add: valid_inputs_def valid_random_def idle_def press_def command_def sizes)

subsection \<open>What updateDisplay lights\<close>

lemma in_cols_plot: "in_cols m \<Longrightarrow> 0 \<le> col \<Longrightarrow> col < WIDTH \<Longrightarrow> in_cols (plot row col m)"
  by (simp add: in_cols_def plot_def ROTATE_DISPLAY_def)

lemma drawTestRow_cols: "in_cols m \<Longrightarrow> \<exists>m'. drawTestRow t m = Inr m' \<and> in_cols m'"
  unfolding drawTestRow_def
  by (rule for_loop_rule[where I = "\<lambda>j. in_cols"]) (auto simp: sizes intro: in_cols_plot)

lemma drawStackRow_cols:
  assumes "0 \<le> row" "row < HEIGHT" "in_cols m"
  shows "\<exists>m'. for_loop 0 WIDTH (drawStackCell g row) m = Inr m' \<and> in_cols m'"
proof (rule for_loop_rule[where I = "\<lambda>j. in_cols"])
  fix j b assume "0 \<le> j" "j < WIDTH" "in_cols b"
  then show "\<exists>b'. drawStackCell g row j b = Inr b' \<and> in_cols b'"
    using assms(1,2) by (auto simp: drawStackCell_def stack_read_def in_grid_def intro: in_cols_plot)
qed (use assms in \<open>simp_all add: sizes\<close>)

lemma drawStack_cols:
  assumes "in_cols m"
  shows "\<exists>m'. drawStack g m = Inr m' \<and> in_cols m'"
  unfolding drawStack_def
proof (rule for_loop_rule[where I = "\<lambda>j. in_cols"])
  fix j b assume "0 \<le> j" "j < HEIGHT" "in_cols b"
  then show "\<exists>b'. for_loop 0 WIDTH (drawStackCell g j) b = Inr b' \<and> in_cols b'"
    by (rule drawStackRow_cols)
qed (use assms in \<open>simp_all add: sizes\<close>)

lemma drawBlock_cols: "in_cols m \<Longrightarrow> \<exists>m'. drawBlock s m = Inr m' \<and> in_cols m'"
proof (cases "\<not> gameOver s \<and> blockMoving s")
  case True
  assume m: "in_cols m"
  have "\<exists>m'. for_loop (blockPos s) (blockPos s + BLOCK_WIDTH) (drawBlockCol (blockRow s)) m = Inr m'
      \<and> in_cols m'"
    by (rule for_loop_rule[where I = "\<lambda>j. in_cols"])
      (auto simp: sizes drawBlockCol_def m intro: in_cols_plot)
  with True show ?thesis by (simp add: drawBlock_def)
next
  case False
  assume "in_cols m"
  with False show ?thesis by (auto simp: drawBlock_def)
qed

lemma updateDisplay_cols: "\<exists>m. updateDisplay s = Inr (s\<lparr>matrix := m\<rparr>) \<and> in_cols m"
proof (cases "testMode s")
  case True
  have "in_cols []" by (simp add: in_cols_def)
  from drawTestRow_cols[OF this, of "testRow s"] True show ?thesis
    by (auto simp: updateDisplay_def)
next
  case False
  have "in_cols []" by (simp add: in_cols_def)
  from drawStack_cols[OF this, of "stack s"] obtain m1 where
    m1: "drawStack (stack s) [] = Inr m1" "in_cols m1" by blast
  from drawBlock_cols[OF m1(2), of s] obtain m2 where
    m2: "drawBlock s m1 = Inr m2" "in_cols m2" by blast
  from m1 m2 False show ?thesis by (auto simp: updateDisplay_def)
qed

lemma landGrid_outside:
  "0 \<le> blockRow s \<Longrightarrow> blockRow s < HEIGHT \<Longrightarrow> \<not> in_grid row col \<Longrightarrow>
   landGrid s row col = stack s row col"
  by (auto simp: landGrid_def lands_def in_grid_def)

subsection \<open>The sample states are reached\<close>

text \<open>The sample states are states of the running sketch.\<close>

lemma not_due_at_start:
  assumes "0 < moveDelay s" "moveDelay s \<le> 200" "lastMove s = 0" "millisA inp = 0"
  shows "\<not> moveDue inp s"
proof -
  have "\<not> (2::int) ^ 32 dvd moveDelay s"
    using assms(1,2) by (intro zdvd_not_zless) simp_all
  then have "(word_of_int (moveDelay s) :: 32 word) \<noteq> 0"
    by (simp add: word_of_int_eq_0_iff)
  then show ?thesis using assms(3,4) by (simp add: moveDue_def)
qed

lemma loop_drop_pass:
  assumes "\<not> testMode s" "\<not> gameOver s" "serialIn inp = None" "pressed inp" "released inp"
    "\<not> moveDue inp s" "dropBlock (rndDrop inp) s = Inr s3"
  shows "\<exists>m. loop inp s = Returns (s3\<lparr>matrix := m\<rparr>)"
proof -
  obtain m where "updateDisplay s3 = Inr (s3\<lparr>matrix := m\<rparr>)"
    using updateDisplay_ok by blast
  then have "loop inp s = Returns (s3\<lparr>matrix := m\<rparr>)"
    using assms
    by (simp add: loop_def handleSerial_None motionPass_def buttonPass_def awaitRelease_released)
  then show ?thesis ..
qed

lemma tower_step:
  assumes "n < 31"
  shows "\<exists>m'. loop press ((tower n)\<lparr>matrix := m\<rparr>) = Returns ((tower (Suc n))\<lparr>matrix := m'\<rparr>)"
proof -
  let ?s = "(tower n)\<lparr>matrix := m\<rparr>"
  have f: "blockRow ?s = int n" "stackHeight ?s = int n" "blockPos ?s = 0" "\<not> testMode ?s"
    "\<not> gameOver ?s" "lastMove ?s = 0" "moveDelay ?s = max 50 (200 - 10 * int n)"
    by (simp_all add: tower_def boot_def)
  have row: "0 \<le> blockRow ?s" "blockRow ?s < HEIGHT" using assms f by (simp_all add: sizes)
  have "span ?s 0 \<and> lands ?s 0"
    by (auto simp: span_def lands_def tower_def boot_def sizes)
  then have ap: "anyPlaced ?s" using f by (auto simp: anyPlaced_iff)
  have mx: "max (stackHeight ?s) (blockRow ?s + 1) = int (Suc n)" using f by simp
  have lg: "landGrid ?s = stack (tower (Suc n))"
    by (auto simp: fun_eq_iff landGrid_def span_def lands_def tower_def boot_def sizes)
  have "?s\<lparr>blockMoving := True, stack := landGrid ?s,
                stackHeight := max (stackHeight ?s) (blockRow ?s + 1),
                blockRow := blockRow ?s + 1, blockPos := 0,
                moveDelay := max 50 (moveDelay ?s - 10)\<rparr> = (tower (Suc n))\<lparr>matrix := m\<rparr>"
    unfolding lg mx by (intro state.equality) (simp_all add: tower_def boot_def)
  then have d: "dropBlock (rndDrop press) ?s = Inr ((tower (Suc n))\<lparr>matrix := m\<rparr>)"
    using dropBlock_result[OF row, of 0] ap mx assms by (simp add: press_def idle_def sizes)
  have nd: "\<not> moveDue press ?s"
    by (rule not_due_at_start) (simp_all add: tower_def boot_def press_def idle_def)
  from loop_drop_pass[OF f(4,5) _ pressed_press(1,2) nd d]
  show ?thesis by (simp add: press_def idle_def)
qed

lemma tower_passes:
  "n + k \<le> 31 \<Longrightarrow>
   \<exists>m'. passes (replicate k press) ((tower n)\<lparr>matrix := m\<rparr>) = Returns ((tower (n + k))\<lparr>matrix := m'\<rparr>)"
proof (induction k arbitrary: n m)
  case 0
  show ?case by (intro exI[of _ m]) simp
next
  case (Suc k)
  then have "n < 31" by simp
  from tower_step[OF this, of m] obtain m1 where
    m1: "loop press ((tower n)\<lparr>matrix := m\<rparr>) = Returns ((tower (Suc n))\<lparr>matrix := m1\<rparr>)" ..
  from Suc.prems have "Suc n + k \<le> 31" by simp
  from Suc.IH[OF this, of m1] m1 show ?case by simp
qed

lemma lastRow_reached: "reaches 0 (replicate 31 press) lastRow"
proof -
  obtain m0 where "setupSketch 0 =
     Inr (boot\<lparr>matrix := []\<rparr>\<lparr>stack := (\<lambda>r c. if in_grid r c then 0 else stack (boot\<lparr>matrix := []\<rparr>) r c),
           blockPos := 0,
           blockRow := 0, stackHeight := 0, gameOver := False, blockMoving := True,
           moveDelay := 200, moveRight := True, testMode := False, testRow := 0,
           matrix := m0\<rparr>)" (is "_ = Inr ?s0")
    unfolding setupSketch_def using resetGame_result[of 0 "boot\<lparr>matrix := []\<rparr>"] by blast
  moreover have "?s0 = (tower 0)\<lparr>matrix := m0\<rparr>"
    by (intro state.equality) (simp_all add: tower_def boot_def fun_eq_iff)
  ultimately have s: "setupSketch 0 = Inr ((tower 0)\<lparr>matrix := m0\<rparr>)" by simp
  obtain m where "passes (replicate 31 press) ((tower 0)\<lparr>matrix := m0\<rparr>) =
      Returns ((tower (0 + 31))\<lparr>matrix := m\<rparr>)"
    using tower_passes[of 0 31 m0] by auto
  moreover have "tower 31 = lastRow" by (simp add: tower_def lastRow_def)
  ultimately show ?thesis using s by (auto simp: run_def reaches_def)
qed

lemma loop_drop_next:
  assumes s: "\<not> testMode s" "\<not> gameOver s" "0 \<le> blockRow s" "blockRow s < HEIGHT" "anyPlaced s"
      "max (stackHeight s) (blockRow s + 1) < HEIGHT"
      "0 < moveDelay s" "moveDelay s \<le> 200" "lastMove s = 0"
    and inp: "serialIn inp = None" "pressed inp" "released inp" "millisA inp = 0"
  shows "\<exists>m. loop inp s =
    Returns (s\<lparr>blockMoving := True, stack := landGrid s,
               stackHeight := max (stackHeight s) (blockRow s + 1),
               blockRow := blockRow s + 1, blockPos := rndDrop inp,
               moveDelay := max 50 (moveDelay s - 10), matrix := m\<rparr>)"
proof -
  have d: "dropBlock (rndDrop inp) s =
      Inr (s\<lparr>blockMoving := True, stack := landGrid s,
               stackHeight := max (stackHeight s) (blockRow s + 1),
               blockRow := blockRow s + 1, blockPos := rndDrop inp,
               moveDelay := max 50 (moveDelay s - 10)\<rparr>)"
    using dropBlock_result[OF s(3,4), of "rndDrop inp"] s(5,6) by simp
  have nd: "\<not> moveDue inp s" using s(7,8,9) inp(4) by (rule not_due_at_start)
  from loop_drop_pass[OF s(1,2) inp(1,2,3) nd d] show ?thesis by simp
qed

lemma passes_one: "passes [inp] s = loop inp s"
  by (cases "loop inp s") simp_all

lemma secondRow_reached: "reaches 2 [press] secondRow"
proof -
  obtain m0 where "setupSketch 2 =
     Inr (boot\<lparr>matrix := []\<rparr>\<lparr>stack := (\<lambda>r c. if in_grid r c then 0 else stack (boot\<lparr>matrix := []\<rparr>) r c),
           blockPos := 2,
           blockRow := 0, stackHeight := 0, gameOver := False, blockMoving := True,
           moveDelay := 200, moveRight := True, testMode := False, testRow := 0,
           matrix := m0\<rparr>)" (is "_ = Inr ?s0")
    unfolding setupSketch_def using resetGame_result[of 2 "boot\<lparr>matrix := []\<rparr>"] by blast
  moreover have "?s0 = boot\<lparr>blockPos := 2, matrix := m0\<rparr>" (is "_ = ?s")
    by (intro state.equality) (simp_all add: boot_def fun_eq_iff)
  ultimately have st: "setupSketch 2 = Inr ?s" by simp
  have "span ?s 2 \<and> lands ?s 2" by (simp add: span_def lands_def boot_def sizes)
  then have ap: "anyPlaced ?s" unfolding anyPlaced_iff by (intro conjI exI[of _ 2]) (simp_all add: boot_def)
  have "\<exists>m. loop press ?s =
    Returns (?s\<lparr>blockMoving := True, stack := landGrid ?s,
               stackHeight := max (stackHeight ?s) (blockRow ?s + 1),
               blockRow := blockRow ?s + 1, blockPos := rndDrop press,
               moveDelay := max 50 (moveDelay ?s - 10), matrix := m\<rparr>)"
    using ap pressed_press(1,2)
    by (intro loop_drop_next) (simp_all add: boot_def sizes press_def idle_def)
  then obtain m where l: "loop press ?s =
    Returns (?s\<lparr>blockMoving := True, stack := landGrid ?s,
               stackHeight := max (stackHeight ?s) (blockRow ?s + 1),
               blockRow := blockRow ?s + 1, blockPos := rndDrop press,
               moveDelay := max 50 (moveDelay ?s - 10), matrix := m\<rparr>)" (is "_ = Returns ?s1") ..
  have "landGrid ?s = stack secondRow"
    by (auto simp: fun_eq_iff landGrid_def span_def lands_def secondRow_def boot_def sizes)
  then have "?s1 = secondRow\<lparr>matrix := m\<rparr>"
    by (intro state.equality) (simp_all add: secondRow_def boot_def press_def idle_def)
  with l st show ?thesis by (auto simp: run_def reaches_def)
qed

lemma thirdRow_reached: "reaches 2 [press, press\<lparr>rndDrop := 4\<rparr>] thirdRow"
proof -
  obtain s0 m0 where st: "setupSketch 2 = Inr s0" "loop press s0 = Returns (secondRow\<lparr>matrix := m0\<rparr>)"
    using secondRow_reached unfolding reaches_def run_def andThen_Returns passes_one by blast
  let ?s = "secondRow\<lparr>matrix := m0\<rparr>"
  let ?p = "press\<lparr>rndDrop := 4\<rparr>"
  have "span ?s 2 \<and> lands ?s 2" by (simp add: span_def lands_def secondRow_def boot_def sizes)
  then have ap: "anyPlaced ?s"
    unfolding anyPlaced_iff by (intro conjI exI[of _ 2]) (simp_all add: secondRow_def boot_def)
  have "\<exists>m. loop ?p ?s =
    Returns (?s\<lparr>blockMoving := True, stack := landGrid ?s,
               stackHeight := max (stackHeight ?s) (blockRow ?s + 1),
               blockRow := blockRow ?s + 1, blockPos := rndDrop ?p,
               moveDelay := max 50 (moveDelay ?s - 10), matrix := m\<rparr>)"
    using ap
    by (intro loop_drop_next)
      (simp_all add: secondRow_def boot_def sizes press_def idle_def pressed_def released_def)
  then obtain m where l: "loop ?p ?s =
    Returns (?s\<lparr>blockMoving := True, stack := landGrid ?s,
               stackHeight := max (stackHeight ?s) (blockRow ?s + 1),
               blockRow := blockRow ?s + 1, blockPos := rndDrop ?p,
               moveDelay := max 50 (moveDelay ?s - 10), matrix := m\<rparr>)" (is "_ = Returns ?s1") ..
  have "landGrid ?s = stack thirdRow"
    by (auto simp: fun_eq_iff landGrid_def span_def lands_def secondRow_def thirdRow_def boot_def
        sizes)
  then have "?s1 = thirdRow\<lparr>matrix := m\<rparr>"
    by (intro state.equality) (simp_all add: secondRow_def thirdRow_def boot_def)
  with l st show ?thesis by (auto simp: run_def reaches_def passes_one)
qed

subsection \<open>The faults and the hang are real\<close>

text \<open>\<^verbatim>\<open>dropBlock\<close> tests the column, not the row: with the block on a row outside the
  grid (which no run reaches) it reads outside the array. And a pass whose button is
  never released does not return.\<close>

lemma dropBlock_faults_off_grid: "dropBlock 0 (lastRow\<lparr>blockRow := 33\<rparr>) = Inl OutOfBounds"
  by (simp add: dropBlock_def dropCols_def dropCol_def for_loop.simps stack_read_def in_grid_def
      lastRow_def boot_def sizes)

lemma loop_hangs_while_held: "loop (idle\<lparr>buttonLow := (\<lambda>k. True)\<rparr>) lastRow = Hangs"
proof -
  let ?i = "idle\<lparr>buttonLow := (\<lambda>k. True)\<rparr>"
  have i: "serialIn ?i = None" "pressed ?i" "\<not> released ?i" "millisA ?i = 0"
    by (simp_all add: idle_def pressed_def released_def)
  have s: "\<not> testMode lastRow" "\<not> gameOver lastRow" "0 \<le> blockRow lastRow"
    "blockRow lastRow < HEIGHT"
    by (simp_all add: lastRow_def boot_def sizes)
  have nd: "\<not> moveDue ?i lastRow"
    by (rule not_due_at_start) (simp_all add: lastRow_def boot_def idle_def)
  obtain s3 where s3: "dropBlock (rndDrop ?i) lastRow = Inr s3"
    using dropBlock_result[OF s(3,4)] by blast
  obtain m where "updateDisplay s3 = Inr (s3\<lparr>matrix := m\<rparr>)"
    using updateDisplay_ok by blast
  then show ?thesis
    using i s nd s3
    by (simp add: loop_def handleSerial_None motionPass_def buttonPass_def awaitRelease_held)
qed

text \<open>A pass that calls \<^verbatim>\<open>resetGame\<close> and not \<^verbatim>\<open>dropBlock\<close> ends with the postconditions of
  the reset.\<close>

lemma loop_reset_only:
  assumes "loop inp s = Returns s'" "callsReset inp s" "\<not> callsDrop inp s"
    "valid_random (rndReset inp)"
  shows "fresh s'"
proof (cases "serialIn inp = Some (CHR ''t'')")
  case True
  with assms(2,3) have "testMode s" "\<not> pressed inp"
    by (auto simp: callsReset_def callsDrop_def)
  from loop_exit_quiet[OF this(1) True assms(4) this(2)] assms(1) show ?thesis by auto
next
  case False
  with assms(2) have c: "\<not> testMode s" "gameOver s" "pressed inp"
    by (auto simp: callsReset_def)
  obtain s1 where s1: "handleSerial inp s = Inr s1"
    and rest: "if testMode s1 then testModePass inp s1 = Returns s'
      else if gameOver s1 then gameOverPass inp s1 = Returns s'
      else \<exists>s2. motionPass inp s1 = Inr s2 \<and> buttonPass inp s2 = Returns s'"
    using loop_Returns[OF assms(1)] by blast
  from after_serial[OF s1] False c have "\<not> testMode s1" "gameOver s1" by auto
  with rest have "gameOverPass inp s1 = Returns s'" by simp
  from gameOverPass_Returns[OF this] c(3) obtain m where
    "resetGame (rndReset inp) (s1\<lparr>matrix := m\<rparr>) = Inr s'" by auto
  with resetGame_fresh[OF assms(4), of "s1\<lparr>matrix := m\<rparr>"] show ?thesis by auto
qed

section \<open>The claims of the specification\<close>

text \<open>
  C1, as the code has it. While the game is on (the row of the block is \<open>stackHeight\<close>,
  below \<open>HEIGHT\<close>, and its position is in range), a drop sets to 1 every cell of the row of
  the block that lies under the block and is on the floor or over a cell holding 1, and
  changes no other cell. When at least one column lands and the row is not the last one,
  the game goes on: the block moves again, one row up, at the position \<^verbatim>\<open>random\<close> returned.
  When the row is the last one (\<open>HEIGHT - 1\<close>), the drop ends the game and the block
  stays on its row.
\<close>

theorem C1_drop_keeps_overlap:
  assumes "0 \<le> blockRow s" "blockRow s < HEIGHT" "stackHeight s = blockRow s"
    and "0 \<le> blockPos s" "blockPos s \<le> WIDTH - BLOCK_WIDTH"
    and "\<not> gameOver s" "valid_random rnd"
  shows "\<exists>s'. dropBlock rnd s = Inr s' \<and>
    (\<forall>col. span s col \<and> (blockRow s = 0 \<or> stack s (blockRow s - 1) col = 1)
       \<longrightarrow> stack s' (blockRow s) col = 1) \<and>
    (\<forall>row col. \<not> (row = blockRow s \<and> span s col \<and>
                   (blockRow s = 0 \<or> stack s (blockRow s - 1) col = 1))
       \<longrightarrow> stack s' row col = stack s row col) \<and>
    ((\<exists>col. span s col \<and> (blockRow s = 0 \<or> stack s (blockRow s - 1) col = 1)) \<longrightarrow>
       (if blockRow s + 1 < HEIGHT
        then \<not> gameOver s' \<and> blockMoving s' \<and> blockRow s' = blockRow s + 1 \<and>
             blockPos s' = rnd \<and> 0 \<le> blockPos s' \<and> blockPos s' \<le> WIDTH - BLOCK_WIDTH
        else gameOver s' \<and> blockRow s' = blockRow s))"
proof -
  have in_cols: "0 \<le> col \<and> col < WIDTH" if "span s col" for col
    using that assms(4,5) by (auto simp: span_def sizes)
  then have lands_iff:
    "span s col \<and> lands s col \<longleftrightarrow> span s col \<and> (blockRow s = 0 \<or> stack s (blockRow s - 1) col = 1)"
    for col by (auto simp: lands_def)
  have guard: "blockRow s = 0 \<or> stackHeight s > 0" using assms(1,3) by auto
  have placed: "anyPlaced s \<longleftrightarrow>
      (\<exists>col. span s col \<and> (blockRow s = 0 \<or> stack s (blockRow s - 1) col = 1))"
    using guard lands_iff by (auto simp: anyPlaced_iff)
  have grid: "landGrid s row col =
      (if row = blockRow s \<and> span s col \<and> (blockRow s = 0 \<or> stack s (blockRow s - 1) col = 1)
       then 1 else stack s row col)" for row col
    using guard lands_iff[of col] by (auto simp: landGrid_def)
  have mx: "max (stackHeight s) (blockRow s + 1) = blockRow s + 1" using assms(3) by simp
  note res = dropBlock_result[OF assms(1,2), of rnd]
  show ?thesis
  proof (cases "anyPlaced s")
    case False
    show ?thesis
    proof (cases "blockRow s = 0")
      case True
      then have "span s (blockPos s) \<and> lands s (blockPos s)"
        using assms(4,5) by (simp add: span_def lands_def sizes)
      with True False show ?thesis by (auto simp: anyPlaced_iff)
    next
      case r: False
      with False assms(1) res have "dropBlock rnd s = Inr (s\<lparr>blockMoving := False, gameOver := True\<rparr>)"
        by simp
      moreover from False placed have
        "\<And>col. \<not> (span s col \<and> (blockRow s = 0 \<or> stack s (blockRow s - 1) col = 1))" by blast
      ultimately show ?thesis by auto
    qed
  next
    case True
    show ?thesis
    proof (cases "blockRow s + 1 < HEIGHT")
      case next_row: True
      then have "dropBlock rnd s = Inr (s\<lparr>blockMoving := True, stack := landGrid s,
                stackHeight := blockRow s + 1,
                blockRow := blockRow s + 1, blockPos := rnd,
                moveDelay := max 50 (moveDelay s - 10)\<rparr>)"
        using res True mx by simp
      then show ?thesis using next_row assms(6,7) grid
        by (intro exI[of _ "s\<lparr>blockMoving := True, stack := landGrid s,
                stackHeight := blockRow s + 1,
                blockRow := blockRow s + 1, blockPos := rnd,
                moveDelay := max 50 (moveDelay s - 10)\<rparr>"])
          (auto simp: valid_random_def)
    next
      case last_row: False
      then have "dropBlock rnd s = Inr (s\<lparr>blockMoving := False, stack := landGrid s,
                  stackHeight := blockRow s + 1, gameOver := True\<rparr>)"
        using res True mx by simp
      then show ?thesis using last_row grid
        by (intro exI[of _ "s\<lparr>blockMoving := False, stack := landGrid s,
                  stackHeight := blockRow s + 1, gameOver := True\<rparr>"]) auto
    qed
  qed
qed

theorem C1_drop_keeps_overlap_witness:
  "\<exists>s'. dropBlock 3 secondRow = Inr s' \<and>
     stack s' 1 0 = 0 \<and> stack s' 1 1 = 0 \<and> stack s' 1 2 = 1 \<and> stack s' 1 3 = 1 \<and>
     \<not> gameOver s' \<and> blockMoving s' \<and> blockRow s' = 2 \<and> blockPos s' = 3"
proof -
  have v: "valid_random 3" by (simp add: valid_random_def sizes)
  have st: "stack secondRow 0 0 = 0" "stack secondRow 0 1 = 0" "stack secondRow 0 2 = 1"
    "stack secondRow 0 3 = 1" "stack secondRow 1 0 = 0" "stack secondRow 1 1 = 0"
    "blockRow secondRow = 1" "blockPos secondRow = 0"
    by (simp_all add: secondRow_def boot_def)
  have sp: "span secondRow 0" "span secondRow 1" "span secondRow 2" "span secondRow 3"
    by (simp_all add: span_def secondRow_def boot_def sizes)
  obtain s' where s': "dropBlock 3 secondRow = Inr s'"
    and on: "\<And>col. span secondRow col \<and>
        (blockRow secondRow = 0 \<or> stack secondRow (blockRow secondRow - 1) col = 1)
       \<Longrightarrow> stack s' (blockRow secondRow) col = 1"
    and off: "\<And>row col. \<not> (row = blockRow secondRow \<and> span secondRow col \<and>
          (blockRow secondRow = 0 \<or> stack secondRow (blockRow secondRow - 1) col = 1))
       \<Longrightarrow> stack s' row col = stack secondRow row col"
    and go: "(\<exists>col. span secondRow col \<and>
          (blockRow secondRow = 0 \<or> stack secondRow (blockRow secondRow - 1) col = 1)) \<Longrightarrow>
       (if blockRow secondRow + 1 < HEIGHT
        then \<not> gameOver s' \<and> blockMoving s' \<and> blockRow s' = blockRow secondRow + 1 \<and>
             blockPos s' = 3 \<and> 0 \<le> blockPos s' \<and> blockPos s' \<le> WIDTH - BLOCK_WIDTH
        else gameOver s' \<and> blockRow s' = blockRow secondRow)"
    using C1_drop_keeps_overlap[of secondRow 3] v
    by (auto simp: secondRow_def boot_def sizes)
  have "stack s' 1 2 = 1" "stack s' 1 3 = 1"
    using on[of 2] on[of 3] st sp by simp_all
  moreover have "stack s' 1 0 = 0" "stack s' 1 1 = 0"
    using off[of 1 0] off[of 1 1] st by simp_all
  moreover have "\<not> gameOver s' \<and> blockMoving s' \<and> blockRow s' = 2 \<and> blockPos s' = 3"
    using go st sp(3) by (auto simp: sizes)
  ultimately show ?thesis using s' by blast
qed

text \<open>
  C1 as the specification states it fails on the last row. \<open>lastRow\<close> is the state of the
  game after 31 drops at columns 0 to 3: the game is on, the block is on row 31 over
  columns 0 to 3, and column 0 of row 30 holds 1. The drop places column 0 (the cell of row
  31 holds 1 in the grid it leaves), and the state it returns has \<open>gameOver\<close> set and
  \<open>blockRow\<close> still 31: the game has not stayed on, and the block has not moved to a row
  32.
\<close>

theorem C1_last_row_counterexample:
  "reaches 0 (replicate 31 press) lastRow \<and>
   \<not> gameOver lastRow \<and> \<not> testMode lastRow \<and> blockMoving lastRow \<and>
   blockRow lastRow = 31 \<and> blockPos lastRow = 0 \<and> stack lastRow 30 0 = 1 \<and>
   dropBlock 2 lastRow =
     Inr (lastRow\<lparr>blockMoving := False, stack := landGrid lastRow, stackHeight := 32,
            gameOver := True\<rparr>) \<and>
   landGrid lastRow 31 0 = 1"
proof -
  have "dropBlock 2 lastRow = Inr (lastRow\<lparr>blockMoving := False, stack := landGrid lastRow,
      stackHeight := max (stackHeight lastRow) (blockRow lastRow + 1), gameOver := True\<rparr>)"
    using dropBlock_result[of lastRow 2] anyPlaced_samples(2)
    by (simp add: lastRow_def boot_def sizes)
  moreover have "max (stackHeight lastRow) (blockRow lastRow + 1) = 32"
    by (simp add: lastRow_def boot_def)
  moreover have "landGrid lastRow 31 0 = 1"
    by (simp add: landGrid_def span_def lands_def lastRow_def boot_def sizes)
  moreover have "\<not> gameOver lastRow \<and> \<not> testMode lastRow \<and> blockMoving lastRow \<and>
      blockRow lastRow = 31 \<and> blockPos lastRow = 0 \<and> stack lastRow 30 0 = 1"
    by (simp add: lastRow_def boot_def)
  ultimately show ?thesis using lastRow_reached by simp
qed

text \<open>
  C2. A drop on a row above the floor, with no column of the block over a cell of the
  row below that holds 1, ends the game and leaves every cell of the grid and
  \<open>stackHeight\<close> as they were: the state changes in \<open>blockMoving\<close> and \<open>gameOver\<close> only.
\<close>

theorem C2_missed_drop:
  assumes "0 < blockRow s" "blockRow s < HEIGHT"
    and "\<forall>col. span s col \<longrightarrow> stack s (blockRow s - 1) col \<noteq> 1"
  shows "dropBlock rnd s = Inr (s\<lparr>blockMoving := False, gameOver := True\<rparr>) \<and>
    (\<exists>s'. dropBlock rnd s = Inr s' \<and> gameOver s' \<and> stack s' = stack s \<and>
       stackHeight s' = stackHeight s)"
proof -
  from assms(1,3) have "\<not> anyPlaced s" by (auto simp: anyPlaced_iff lands_def)
  then have "dropBlock rnd s = Inr (s\<lparr>blockMoving := False, gameOver := True\<rparr>)"
    using dropBlock_result[of s rnd] assms(1,2) by simp
  then show ?thesis by simp
qed

theorem C2_missed_drop_witness:
  "stack thirdRow 1 2 = 1 \<and> blockPos thirdRow = 4 \<and> blockRow thirdRow = 2 \<and>
   dropBlock 0 thirdRow = Inr (thirdRow\<lparr>blockMoving := False, gameOver := True\<rparr>)"
proof -
  have "\<forall>col. span thirdRow col \<longrightarrow> stack thirdRow (blockRow thirdRow - 1) col \<noteq> 1"
    by (simp add: span_def thirdRow_def boot_def sizes)
  from C2_missed_drop[OF _ _ this, of 0] show ?thesis
    by (simp add: thirdRow_def boot_def sizes)
qed

text \<open>
  C3. A drop that places at least one column and raises \<open>stackHeight\<close> to \<open>HEIGHT\<close> or more
  ends the game and leaves the block on its row; a drop that places at least one column
  and leaves \<open>stackHeight\<close> below \<open>HEIGHT\<close> moves the block to the next row instead.
\<close>

theorem C3_topped_out_or_next_row:
  assumes "0 \<le> blockRow s" "blockRow s < HEIGHT" "anyPlaced s"
  shows "\<exists>s'. dropBlock rnd s = Inr s' \<and>
    stackHeight s' = max (stackHeight s) (blockRow s + 1) \<and>
    (if HEIGHT \<le> stackHeight s'
     then gameOver s' \<and> \<not> blockMoving s' \<and> blockRow s' = blockRow s \<and> blockPos s' = blockPos s
     else gameOver s' = gameOver s \<and> blockMoving s' \<and> blockRow s' = blockRow s + 1)"
  using dropBlock_result[OF assms(1,2), of rnd] assms(3) by simp

theorem C3_topped_out_or_next_row_witness:
  "(\<exists>s'. dropBlock 2 lastRow = Inr s' \<and> stackHeight s' = 32 \<and> gameOver s' \<and> blockRow s' = 31) \<and>
   (\<exists>s'. dropBlock 2 secondRow = Inr s' \<and> stackHeight s' = 2 \<and> \<not> gameOver s' \<and> blockRow s' = 2)"
proof -
  have "\<exists>s'. dropBlock 2 lastRow = Inr s' \<and> stackHeight s' = 32 \<and> gameOver s' \<and> blockRow s' = 31"
    using C3_topped_out_or_next_row[of lastRow 2] anyPlaced_samples(2)
    by (auto simp: lastRow_def boot_def sizes split: if_splits)
  moreover
  have "\<exists>s'. dropBlock 2 secondRow = Inr s' \<and> stackHeight s' = 2 \<and> \<not> gameOver s' \<and> blockRow s' = 2"
    using C3_topped_out_or_next_row[of secondRow 2] anyPlaced_samples(1)
    by (auto simp: secondRow_def boot_def sizes split: if_splits)
  ultimately show ?thesis by blast
qed

text \<open>
  C4. A motion step (lines 226 to 233) adds +1 or -1 to the position according to the
  direction and clamps the result to \<open>0 .. WIDTH - BLOCK_WIDTH\<close>; after the step, position 0
  means the direction is right and position \<open>WIDTH - BLOCK_WIDTH\<close> means it is left; from a
  position in range, the direction flips exactly when the new position is a boundary. A
  pass of the loop makes the step exactly when the move is due, and on every state the
  sketch reaches the position is in range.
\<close>

theorem C4_motion_bounds:
  "0 \<le> blockPos (moveBlock s) \<and> blockPos (moveBlock s) \<le> WIDTH - BLOCK_WIDTH \<and>
   blockPos (moveBlock s) =
     max 0 (min (WIDTH - BLOCK_WIDTH) (blockPos s + (if moveRight s then 1 else - 1))) \<and>
   (blockPos (moveBlock s) = 0 \<longrightarrow> moveRight (moveBlock s)) \<and>
   (blockPos (moveBlock s) = WIDTH - BLOCK_WIDTH \<longrightarrow> \<not> moveRight (moveBlock s)) \<and>
   (0 \<le> blockPos s \<and> blockPos s \<le> WIDTH - BLOCK_WIDTH \<longrightarrow>
      (moveRight (moveBlock s) \<noteq> moveRight s) =
      (blockPos (moveBlock s) = 0 \<or> blockPos (moveBlock s) = WIDTH - BLOCK_WIDTH)) \<and>
   (\<exists>m. motionPass inp s =
      Inr (if moveDue inp s then (moveBlock s)\<lparr>lastMove := millisB inp, matrix := m\<rparr> else s)) \<and>
   (valid_random rnd \<and> (\<forall>i \<in> set inps. valid_inputs i) \<and> run rnd inps = Returns s'
      \<longrightarrow> 0 \<le> blockPos s' \<and> blockPos s' \<le> WIDTH - BLOCK_WIDTH)"
proof (intro conjI impI)
  show "0 \<le> blockPos (moveBlock s)" "blockPos (moveBlock s) \<le> WIDTH - BLOCK_WIDTH"
    using moveBlock_range[of s] by simp_all
  show "blockPos (moveBlock s) =
     max 0 (min (WIDTH - BLOCK_WIDTH) (blockPos s + (if moveRight s then 1 else - 1)))"
    by (simp add: moveBlock_def Let_def sizes)
  show "moveRight (moveBlock s)" if "blockPos (moveBlock s) = 0"
    using that by (simp add: moveBlock_def Let_def sizes split: if_splits)
  show "\<not> moveRight (moveBlock s)" if "blockPos (moveBlock s) = WIDTH - BLOCK_WIDTH"
    using that by (simp add: moveBlock_def Let_def sizes split: if_splits)
  show "(moveRight (moveBlock s) \<noteq> moveRight s) =
      (blockPos (moveBlock s) = 0 \<or> blockPos (moveBlock s) = WIDTH - BLOCK_WIDTH)"
    if "0 \<le> blockPos s \<and> blockPos s \<le> WIDTH - BLOCK_WIDTH"
    using that by (auto simp: moveBlock_def Let_def sizes split: if_splits)
  show "\<exists>m. motionPass inp s =
      Inr (if moveDue inp s then (moveBlock s)\<lparr>lastMove := millisB inp, matrix := m\<rparr> else s)"
    by (rule motionPass_result)
  show "0 \<le> blockPos s'" "blockPos s' \<le> WIDTH - BLOCK_WIDTH"
    if "valid_random rnd \<and> (\<forall>i \<in> set inps. valid_inputs i) \<and> run rnd inps = Returns s'"
    using that run_invariant[of rnd inps OutOfBounds s'] by (simp_all add: game_inv_iff)
qed

theorem C4_motion_bounds_witness:
  "blockPos (moveBlock (boot\<lparr>blockPos := 3\<rparr>)) = 4 \<and>
   \<not> moveRight (moveBlock (boot\<lparr>blockPos := 3\<rparr>)) \<and>
   moveRight (boot\<lparr>blockPos := 3\<rparr>) \<and>
   (\<exists>s'. run 3 [idle\<lparr>millisA := 200\<rparr>] = Returns s' \<and> blockPos s' = 4)"
proof -
  let ?s = "boot\<lparr>blockPos := 3\<rparr>"
  note t = C4_motion_bounds[of ?s idle 3 "[idle\<lparr>millisA := 200\<rparr>]"]
  from t have "blockPos (moveBlock ?s) = 4" by (simp add: boot_def sizes)
  moreover from t this have "\<not> moveRight (moveBlock ?s)" by (simp add: sizes)
  moreover have "moveRight ?s" by (simp add: boot_def)
  moreover have "\<exists>s'. run 3 [idle\<lparr>millisA := 200\<rparr>] = Returns s' \<and> blockPos s' = 4"
  proof -
    have v: "valid_random 3" by (simp add: valid_random_def sizes)
    obtain s0 where s0: "setupSketch 3 = Inr s0" "fresh s0" "blockPos s0 = 3" "moveRight s0"
      "lastMove s0 = 0" "moveDelay s0 = 200" "blockMoving s0" "\<not> testMode s0" "\<not> gameOver s0"
      using resetGame_result[of 3 "boot\<lparr>matrix := []\<rparr>"] resetGame_fresh[OF v, of "boot\<lparr>matrix := []\<rparr>"]
      by (auto simp: setupSketch_def boot_def fresh_iff)
    have due: "moveDue (idle\<lparr>millisA := 200\<rparr>) s0"
      using s0 by (simp add: moveDue_def idle_def)
    have hs: "handleSerial (idle\<lparr>millisA := 200\<rparr>) s0 = Inr s0"
      by (rule handleSerial_None) (simp add: idle_def)
    let ?i = "idle\<lparr>millisA := 200\<rparr>"
    obtain m where "motionPass ?i s0 =
        Inr (if moveDue ?i s0 then (moveBlock s0)\<lparr>lastMove := millisB ?i, matrix := m\<rparr> else s0)"
      using motionPass_result[of ?i s0] by blast
    with due have "motionPass ?i s0 = Inr ((moveBlock s0)\<lparr>lastMove := millisB ?i, matrix := m\<rparr>)"
      by simp
    then have "loop ?i s0 = Returns ((moveBlock s0)\<lparr>lastMove := millisB ?i, matrix := m\<rparr>)"
      using hs s0 by (simp add: loop_def buttonPass_def pressed_def idle_def)
    moreover have "blockPos (moveBlock s0) = 4"
      using C4_motion_bounds[of s0] s0 by (simp add: sizes)
    ultimately show ?thesis using s0(1) by (simp add: run_def)
  qed
  ultimately show ?thesis by blast
qed

text \<open>
  C5. \<open>stackHeight\<close> is one more than the highest row that holds a 1 (0 when the grid is
  empty), on every state the sketch reaches: the rows below \<open>stackHeight\<close> are exactly the
  rows of the grid with a cell holding 1. A drop that places a column from a position in
  range raises \<open>stackHeight\<close> to the row of the block plus one exactly when that exceeds
  it, any other drop leaves it, and so does every pass of the loop that calls neither
  \<^verbatim>\<open>dropBlock\<close> nor \<^verbatim>\<open>resetGame\<close>.
\<close>

theorem C5_stackHeight_watermark:
  "(0 \<le> blockRow s \<and> blockRow s < HEIGHT \<and> 0 \<le> blockPos s \<and> blockPos s \<le> WIDTH - BLOCK_WIDTH \<longrightarrow>
      (\<exists>s'. dropBlock rnd s = Inr s' \<and>
         stackHeight s' =
           (if anyPlaced s \<and> stackHeight s < blockRow s + 1 then blockRow s + 1
            else stackHeight s))) \<and>
   (loop inp s = Returns s1 \<and> \<not> callsReset inp s \<and> \<not> callsDrop inp s \<longrightarrow>
      stackHeight s1 = stackHeight s \<and> stack s1 = stack s) \<and>
   (valid_random r0 \<and> (\<forall>i \<in> set inps. valid_inputs i) \<and> run r0 inps = Returns s2 \<longrightarrow>
      0 \<le> stackHeight s2 \<and> stackHeight s2 \<le> HEIGHT \<and>
      (\<forall>row. 0 \<le> row \<and> row < HEIGHT \<longrightarrow>
         (\<exists>col. 0 \<le> col \<and> col < WIDTH \<and> stack s2 row col = 1) = (row < stackHeight s2)))"
proof (intro conjI impI)
  assume a: "0 \<le> blockRow s \<and> blockRow s < HEIGHT \<and> 0 \<le> blockPos s \<and>
    blockPos s \<le> WIDTH - BLOCK_WIDTH"
  have "anyPlaced s" if "blockRow s = 0"
  proof -
    have "span s (blockPos s) \<and> lands s (blockPos s)"
      using a that by (simp add: span_def lands_def sizes)
    then show ?thesis using that by (auto simp: anyPlaced_iff)
  qed
  then show "\<exists>s'. dropBlock rnd s = Inr s' \<and>
         stackHeight s' =
           (if anyPlaced s \<and> stackHeight s < blockRow s + 1 then blockRow s + 1
            else stackHeight s)"
    using dropBlock_result[of s rnd] a by (auto simp: max_def)
next
  assume "loop inp s = Returns s1 \<and> \<not> callsReset inp s \<and> \<not> callsDrop inp s"
  then show "stackHeight s1 = stackHeight s" "stack s1 = stack s"
    using loop_quiet[of inp s s1] by simp_all
next
  assume "valid_random r0 \<and> (\<forall>i \<in> set inps. valid_inputs i) \<and> run r0 inps = Returns s2"
  then have "game_inv s2" using run_invariant[of r0 inps OutOfBounds s2] by simp
  then show "0 \<le> stackHeight s2" "stackHeight s2 \<le> HEIGHT"
    "\<forall>row. 0 \<le> row \<and> row < HEIGHT \<longrightarrow>
         (\<exists>col. 0 \<le> col \<and> col < WIDTH \<and> stack s2 row col = 1) = (row < stackHeight s2)"
    by (simp_all add: game_inv_iff)
qed

theorem C5_stackHeight_watermark_witness:
  "(\<exists>s'. dropBlock 3 secondRow = Inr s' \<and> stackHeight secondRow = 1 \<and> stackHeight s' = 2) \<and>
   (\<exists>s'. dropBlock 3 thirdRow = Inr s' \<and> stackHeight thirdRow = 2 \<and> stackHeight s' = 2) \<and>
   (\<exists>s1. loop idle secondRow = Returns s1 \<and> stackHeight s1 = 1) \<and>
   (\<exists>s2. run 3 [] = Returns s2 \<and> stackHeight s2 = 0 \<and>
      (\<exists>col. 0 \<le> col \<and> col < WIDTH \<and> stack s2 0 col = 1) = False)"
proof -
  have "\<exists>s'. dropBlock 3 secondRow = Inr s' \<and> stackHeight secondRow = 1 \<and> stackHeight s' = 2"
    using C5_stackHeight_watermark[of secondRow 3] anyPlaced_samples(1)
    by (simp add: secondRow_def boot_def sizes)
  moreover
  have "\<exists>s'. dropBlock 3 thirdRow = Inr s' \<and> stackHeight thirdRow = 2 \<and> stackHeight s' = 2"
    using C5_stackHeight_watermark[of thirdRow 3] anyPlaced_samples(3)
    by (simp add: thirdRow_def boot_def sizes)
  moreover
  have "\<exists>s1. loop idle secondRow = Returns s1 \<and> stackHeight s1 = 1"
  proof -
    obtain s1 where s1: "loop idle secondRow = Returns s1"
      using loop_total[of idle secondRow] callsReset_samples(2) pressed_press(3) by blast
    then have "stackHeight s1 = stackHeight secondRow"
      using C5_stackHeight_watermark[of secondRow 0 idle s1] callsReset_samples(1,2) by simp
    with s1 show ?thesis by (simp add: secondRow_def boot_def)
  qed
  moreover
  have "\<exists>s2. run 3 [] = Returns s2 \<and> stackHeight s2 = 0 \<and>
      (\<exists>col. 0 \<le> col \<and> col < WIDTH \<and> stack s2 0 col = 1) = False"
  proof -
    have v: "valid_random 3" by (simp add: valid_random_def sizes)
    obtain s2 where s2: "setupSketch 3 = Inr s2" "fresh s2"
      using resetGame_fresh[OF v, of "boot\<lparr>matrix := []\<rparr>"] by (auto simp: setupSketch_def)
    then have r: "run 3 [] = Returns s2" by (simp add: run_def)
    have h: "stackHeight s2 = 0" using s2(2) by (simp add: fresh_iff)
    from C5_stackHeight_watermark[of boot 0 idle boot 3 "[]" s2] v r
    have "(\<exists>col. 0 \<le> col \<and> col < WIDTH \<and> stack s2 0 col = 1) = (0 < stackHeight s2)"
      by (simp add: sizes)
    with r h show ?thesis by simp
  qed
  ultimately show ?thesis by blast
qed

text \<open>
  C6. After every reset (at startup, on the button after a game over, on leaving test
  mode) every cell of the grid is 0, \<open>stackHeight\<close> is 0, \<open>moveDelay\<close> is 200, the game is
  neither over nor in test mode, and the block is moving on row 0 at a position between
  0 and \<open>WIDTH - BLOCK_WIDTH\<close>. \<open>fresh\<close> is the conjunction of these postconditions.
\<close>

theorem C6_reset_postconditions:
  assumes "valid_random rnd" "rndReset inp = rnd"
  shows "(\<exists>s'. resetGame rnd s = Inr s' \<and> fresh s') \<and>
    (\<exists>s'. setupSketch rnd = Inr s' \<and> fresh s') \<and>
    (gameOver s \<and> \<not> testMode s \<and> serialIn inp \<noteq> Some (CHR ''t'') \<and> pressed inp \<and> released inp
       \<longrightarrow> (\<exists>s'. loop inp s = Returns s' \<and> fresh s')) \<and>
    (testMode s \<and> serialIn inp = Some (CHR ''t'')
       \<longrightarrow> (\<exists>s1. handleSerial inp s = Inr s1 \<and> fresh s1) \<and>
           (\<not> pressed inp \<longrightarrow> (\<exists>s'. loop inp s = Returns s' \<and> fresh s')))"
proof (intro conjI impI)
  show "\<exists>s'. resetGame rnd s = Inr s' \<and> fresh s'"
    using resetGame_fresh[OF assms(1), of s] by blast
  show "\<exists>s'. setupSketch rnd = Inr s' \<and> fresh s'"
    unfolding setupSketch_def using resetGame_fresh[OF assms(1), of "boot\<lparr>matrix := []\<rparr>"] by blast
next
  assume a: "gameOver s \<and> \<not> testMode s \<and> serialIn inp \<noteq> Some (CHR ''t'') \<and> pressed inp \<and>
    released inp"
  then obtain m s' where "resetGame (rndReset inp) (s\<lparr>matrix := m\<rparr>) = Inr s'"
    "loop inp s = Returns s'"
    using loop_restart[of s inp] by blast
  then show "\<exists>s'. loop inp s = Returns s' \<and> fresh s'"
    using resetGame_fresh[OF assms(1), of "s\<lparr>matrix := m\<rparr>"] assms(2) by auto
next
  assume a: "testMode s \<and> serialIn inp = Some (CHR ''t'')"
  then show "\<exists>s1. handleSerial inp s = Inr s1 \<and> fresh s1"
    using loop_exit[of s inp] assms by blast
next
  assume "testMode s \<and> serialIn inp = Some (CHR ''t'')" "\<not> pressed inp"
  then show "\<exists>s'. loop inp s = Returns s' \<and> fresh s'"
    using loop_exit_quiet[of s inp] assms by blast
qed

theorem C6_reset_postconditions_witness:
  "(\<exists>s'. resetGame 3 lastRow = Inr s' \<and> fresh s') \<and>
   (\<exists>s'. setupSketch 3 = Inr s' \<and> fresh s') \<and>
   (\<exists>s'. loop (press\<lparr>rndReset := 3\<rparr>) (lastRow\<lparr>gameOver := True\<rparr>) = Returns s' \<and> fresh s') \<and>
   (\<exists>s'. loop ((command CHR ''t'')\<lparr>rndReset := 3\<rparr>) (lastRow\<lparr>testMode := True\<rparr>) = Returns s'
      \<and> fresh s')"
proof -
  have v: "valid_random 3" by (simp add: valid_random_def sizes)
  have p: "pressed (press\<lparr>rndReset := 3\<rparr>)" "released (press\<lparr>rndReset := 3\<rparr>)"
    "\<not> pressed ((command CHR ''t'')\<lparr>rndReset := 3\<rparr>)"
    by (auto simp: pressed_def released_def press_def idle_def command_def)
  have "\<exists>s'. resetGame 3 lastRow = Inr s' \<and> fresh s'"
    and "\<exists>s'. setupSketch 3 = Inr s' \<and> fresh s'"
    using C6_reset_postconditions[OF v, of "idle\<lparr>rndReset := 3\<rparr>" lastRow] by simp_all
  moreover have "\<exists>s'. loop (press\<lparr>rndReset := 3\<rparr>) (lastRow\<lparr>gameOver := True\<rparr>) = Returns s' \<and> fresh s'"
    using C6_reset_postconditions[OF v, of "press\<lparr>rndReset := 3\<rparr>" "lastRow\<lparr>gameOver := True\<rparr>"] p
    by (simp add: press_def idle_def lastRow_def boot_def)
  moreover have "\<exists>s'. loop ((command CHR ''t'')\<lparr>rndReset := 3\<rparr>) (lastRow\<lparr>testMode := True\<rparr>) = Returns s'
      \<and> fresh s'"
    using C6_reset_postconditions[OF v, of "(command CHR ''t'')\<lparr>rndReset := 3\<rparr>" "lastRow\<lparr>testMode := True\<rparr>"] p
    by (simp add: command_def idle_def)
  ultimately show ?thesis by blast
qed

text \<open>
  C7. A drop after which the block moves again lowers \<open>moveDelay\<close> by 10, but not below
  50; a drop that ends the game leaves it. Over the passes of one game (no pass calls
  \<^verbatim>\<open>resetGame\<close>), \<open>moveDelay\<close> never increases and never goes below 50.
\<close>

theorem C7_moveDelay_monotone:
  "(0 \<le> blockRow s \<and> blockRow s < HEIGHT \<and> 50 \<le> moveDelay s \<longrightarrow>
      (\<exists>s'. dropBlock rnd s = Inr s' \<and>
         moveDelay s' = (if blockMoving s' then max 50 (moveDelay s - 10) else moveDelay s) \<and>
         50 \<le> moveDelay s' \<and> moveDelay s' \<le> moveDelay s)) \<and>
   (passes inps s = Returns s1 \<and> oneGame inps s \<and> 50 \<le> moveDelay s \<longrightarrow>
      50 \<le> moveDelay s1 \<and> moveDelay s1 \<le> moveDelay s)"
proof (intro conjI impI)
  assume a: "0 \<le> blockRow s \<and> blockRow s < HEIGHT \<and> 50 \<le> moveDelay s"
  then obtain s' where s': "dropBlock rnd s = Inr s'"
    using dropBlock_result[of s rnd] by simp
  from dropBlock_frame[OF this] a
  have "moveDelay s' = (if blockMoving s' then max 50 (moveDelay s - 10) else moveDelay s) \<and>
         50 \<le> moveDelay s' \<and> moveDelay s' \<le> moveDelay s"
    by (auto split: if_splits)
  with s' show "\<exists>s'. dropBlock rnd s = Inr s' \<and>
         moveDelay s' = (if blockMoving s' then max 50 (moveDelay s - 10) else moveDelay s) \<and>
         50 \<le> moveDelay s' \<and> moveDelay s' \<le> moveDelay s" by blast
next
  assume "passes inps s = Returns s1 \<and> oneGame inps s \<and> 50 \<le> moveDelay s"
  then show "50 \<le> moveDelay s1" "moveDelay s1 \<le> moveDelay s"
    using passes_moveDelay[of inps s s1] by simp_all
qed

theorem C7_moveDelay_monotone_witness:
  "(\<exists>s'. dropBlock 3 secondRow = Inr s' \<and> moveDelay secondRow = 190 \<and> moveDelay s' = 180) \<and>
   (\<exists>s'. dropBlock 3 lastRow = Inr s' \<and> moveDelay lastRow = 50 \<and> moveDelay s' = 50) \<and>
   (\<exists>s1. passes [idle, press] secondRow = Returns s1 \<and> 50 \<le> moveDelay s1 \<and> moveDelay s1 \<le> 190)"
proof -
  have "\<exists>s'. dropBlock 3 secondRow = Inr s' \<and> moveDelay secondRow = 190 \<and> moveDelay s' = 180"
  proof -
    obtain s' where s': "dropBlock 3 secondRow = Inr s'"
      and d: "moveDelay s' =
        (if blockMoving s' then max 50 (moveDelay secondRow - 10) else moveDelay secondRow)"
      using C7_moveDelay_monotone[of secondRow 3] by (auto simp: secondRow_def boot_def sizes)
    have "blockMoving s'"
      using s' dropBlock_result[of secondRow 3] anyPlaced_samples(1)
      by (auto simp: secondRow_def boot_def sizes)
    with s' d show ?thesis by (simp add: secondRow_def boot_def)
  qed
  moreover
  have "\<exists>s'. dropBlock 3 lastRow = Inr s' \<and> moveDelay lastRow = 50 \<and> moveDelay s' = 50"
  proof -
    have d: "moveDelay lastRow = 50" by (simp add: lastRow_def boot_def)
    then have "0 \<le> blockRow lastRow \<and> blockRow lastRow < HEIGHT \<and> 50 \<le> moveDelay lastRow"
      by (simp add: lastRow_def boot_def sizes)
    with C7_moveDelay_monotone[of lastRow 3 "[]" lastRow] obtain s' where
      "dropBlock 3 lastRow = Inr s'" "50 \<le> moveDelay s'" "moveDelay s' \<le> moveDelay lastRow"
      by blast
    with d show ?thesis by auto
  qed
  moreover
  have "\<exists>s1. passes [idle, press] secondRow = Returns s1 \<and> 50 \<le> moveDelay s1 \<and> moveDelay s1 \<le> 190"
  proof -
    obtain s0 where s0: "loop idle secondRow = Returns s0"
      using loop_total[of idle secondRow] callsReset_samples(2) pressed_press(3) by blast
    have g0: "\<not> gameOver s0"
      using loop_quiet[OF s0 callsReset_samples(1,2)] by (simp add: secondRow_def boot_def)
    have i0: "game_inv s0" using loop_inv[OF game_inv_samples(1) valid_samples(1) s0] .
    obtain s1 where s1: "loop press s0 = Returns s1"
      using loop_total[of press s0] i0 valid_samples(2) pressed_press(2) by blast
    have p: "passes [idle, press] secondRow = Returns s1" using s0 s1 by simp
    have o: "oneGame [idle, press] secondRow"
      using s0 s1 g0 callsReset_samples by simp
    from C7_moveDelay_monotone[of secondRow 0 "[idle, press]" s1] p o
    have "50 \<le> moveDelay s1 \<and> moveDelay s1 \<le> 190" by (simp add: secondRow_def boot_def)
    with p show ?thesis by blast
  qed
  ultimately show ?thesis by blast
qed

text \<open>
  C8. Test mode does not touch the game. The pass that enters it (byte \<open>t\<close> outside test
  mode) and every pass inside it change \<open>testMode\<close>, \<open>testRow\<close> and the display only: the
  grid, \<open>stackHeight\<close> and the position, row and direction of the block stay as they are.
  Entering sets the cursor \<open>testRow\<close> to 0; the byte \<open>n\<close> and the button each move it to
  \<open>(testRow + 1) mod HEIGHT\<close>, from \<open>HEIGHT - 1\<close> back to 0. The byte \<open>t\<close> inside test mode
  calls \<^verbatim>\<open>resetGame\<close>, which leaves the postconditions of a reset, and the pass goes on
  with the game from there.
\<close>

theorem C8_test_mode_frame:
  "(\<not> testMode s \<and> serialIn inp = Some (CHR ''t'') \<and> (pressed inp \<longrightarrow> released inp) \<longrightarrow>
      (\<exists>m. loop inp s =
         Returns (s\<lparr>testMode := True, testRow := (if pressed inp then 1 else 0), matrix := m\<rparr>))) \<and>
   (testMode s \<and> serialIn inp \<noteq> Some (CHR ''t'') \<and> (pressed inp \<longrightarrow> released inp) \<longrightarrow>
      (\<exists>m. loop inp s =
         Returns (s\<lparr>testRow :=
             (let t = (if serialIn inp = Some (CHR ''n'') then (testRow s + 1) smod HEIGHT
                       else testRow s)
              in if pressed inp then (t + 1) smod HEIGHT else t),
           matrix := m\<rparr>))) \<and>
   (0 \<le> t \<and> t < HEIGHT \<longrightarrow>
      (t + 1) smod HEIGHT = (t + 1) mod HEIGHT \<and>
      0 \<le> (t + 1) smod HEIGHT \<and> (t + 1) smod HEIGHT < HEIGHT) \<and>
   (HEIGHT - 1 + 1) smod HEIGHT = 0 \<and>
   (testMode s \<and> serialIn inp = Some (CHR ''t'') \<and> valid_random (rndReset inp) \<longrightarrow>
      (\<exists>s1. handleSerial inp s = Inr s1 \<and> fresh s1 \<and>
         loop inp s = andThen (motionPass inp s1) (buttonPass inp)))"
proof (intro conjI impI)
  assume a: "\<not> testMode s \<and> serialIn inp = Some (CHR ''t'') \<and> (pressed inp \<longrightarrow> released inp)"
  then obtain m where "loop inp s =
    Returns (s\<lparr>testMode := True,
       testRow :=
         (let t = (if serialIn inp = Some (CHR ''t'') then 0
                   else if serialIn inp = Some (CHR ''n'') then (testRow s + 1) smod HEIGHT
                   else testRow s)
          in if pressed inp then (t + 1) smod HEIGHT else t),
       matrix := m\<rparr>)"
    using loop_test[of s inp] by auto
  moreover have "(1::int) smod HEIGHT = 1" by (simp add: signed_modulo_int_def sizes)
  ultimately have "loop inp s =
      Returns (s\<lparr>testMode := True, testRow := (if pressed inp then 1 else 0), matrix := m\<rparr>)"
    using a by (simp add: Let_def)
  then show "\<exists>m. loop inp s =
      Returns (s\<lparr>testMode := True, testRow := (if pressed inp then 1 else 0), matrix := m\<rparr>)" ..
next
  assume a: "testMode s \<and> serialIn inp \<noteq> Some (CHR ''t'') \<and> (pressed inp \<longrightarrow> released inp)"
  then obtain m where l: "loop inp s =
    Returns (s\<lparr>testMode := True,
       testRow :=
         (let t = (if serialIn inp = Some (CHR ''t'') then 0
                   else if serialIn inp = Some (CHR ''n'') then (testRow s + 1) smod HEIGHT
                   else testRow s)
          in if pressed inp then (t + 1) smod HEIGHT else t),
       matrix := m\<rparr>)"
    using loop_test[of s inp] by auto
  from a have "s\<lparr>testMode := True\<rparr> = s" by (intro state.equality) simp_all
  then have "s\<lparr>testMode := True, testRow := r, matrix := m\<rparr> = s\<lparr>testRow := r, matrix := m\<rparr>"
    for r by (intro state.equality) simp_all
  with l a have "loop inp s =
      Returns (s\<lparr>testRow :=
             (let t = (if serialIn inp = Some (CHR ''n'') then (testRow s + 1) smod HEIGHT
                       else testRow s)
              in if pressed inp then (t + 1) smod HEIGHT else t),
           matrix := m\<rparr>)"
    by simp
  then show "\<exists>m. loop inp s =
      Returns (s\<lparr>testRow :=
             (let t = (if serialIn inp = Some (CHR ''n'') then (testRow s + 1) smod HEIGHT
                       else testRow s)
              in if pressed inp then (t + 1) smod HEIGHT else t),
           matrix := m\<rparr>)" ..
next
  assume "0 \<le> t \<and> t < HEIGHT"
  then show "(t + 1) smod HEIGHT = (t + 1) mod HEIGHT" "0 \<le> (t + 1) smod HEIGHT"
    "(t + 1) smod HEIGHT < HEIGHT"
    using smod_HEIGHT[of t] advance_in_range[of t] by simp_all
next
  show "(HEIGHT - 1 + 1) smod HEIGHT = 0" by (simp add: signed_modulo_int_def sizes)
next
  assume "testMode s \<and> serialIn inp = Some (CHR ''t'') \<and> valid_random (rndReset inp)"
  then show "\<exists>s1. handleSerial inp s = Inr s1 \<and> fresh s1 \<and>
         loop inp s = andThen (motionPass inp s1) (buttonPass inp)"
    using loop_exit[of s inp] by blast
qed

theorem C8_test_mode_frame_witness:
  "(\<exists>m. loop (command CHR ''t'') secondRow =
      Returns (secondRow\<lparr>testMode := True, testRow := 0, matrix := m\<rparr>)) \<and>
   (\<exists>m. loop (command CHR ''n'') (secondRow\<lparr>testMode := True, testRow := 31\<rparr>) =
      Returns (secondRow\<lparr>testMode := True, testRow := 0, matrix := m\<rparr>)) \<and>
   (\<exists>m. loop press (secondRow\<lparr>testMode := True, testRow := 4\<rparr>) =
      Returns (secondRow\<lparr>testMode := True, testRow := 5, matrix := m\<rparr>)) \<and>
   (\<exists>s1. handleSerial (command CHR ''t'') (secondRow\<lparr>testMode := True, testRow := 4\<rparr>) = Inr s1 \<and>
      fresh s1)"
proof -
  have c: "serialIn (command c) = Some c" "serialIn press = None" "rndReset (command c) = 0" for c
    by (simp_all add: command_def press_def idle_def)
  have v: "valid_random 0" by (simp add: valid_random_def sizes)
  have m: "(32::int) smod HEIGHT = 0" "(5::int) smod HEIGHT = 5"
    by (simp_all add: signed_modulo_int_def sizes)
  have "\<exists>m. loop (command CHR ''t'') secondRow =
      Returns (secondRow\<lparr>testMode := True, testRow := 0, matrix := m\<rparr>)"
    using C8_test_mode_frame[of secondRow "command CHR ''t''" 0] c pressed_press(4)
    by (simp add: secondRow_def boot_def)
  moreover
  have "\<exists>m. loop (command CHR ''n'') (secondRow\<lparr>testMode := True, testRow := 31\<rparr>) =
      Returns (secondRow\<lparr>testMode := True, testRow := 0, matrix := m\<rparr>)"
    using C8_test_mode_frame[of "secondRow\<lparr>testMode := True, testRow := 31\<rparr>" "command CHR ''n''" 0]
      c pressed_press(4) m
    by simp
  moreover
  have "\<exists>m. loop press (secondRow\<lparr>testMode := True, testRow := 4\<rparr>) =
      Returns (secondRow\<lparr>testMode := True, testRow := 5, matrix := m\<rparr>)"
    using C8_test_mode_frame[of "secondRow\<lparr>testMode := True, testRow := 4\<rparr>" press 0]
      c pressed_press(1,2) m
    by simp
  moreover
  have "\<exists>s1. handleSerial (command CHR ''t'') (secondRow\<lparr>testMode := True, testRow := 4\<rparr>) = Inr s1 \<and>
      fresh s1"
    using C8_test_mode_frame[of "secondRow\<lparr>testMode := True, testRow := 4\<rparr>" "command CHR ''t''" 0]
      c v
    by auto
  ultimately show ?thesis by blast
qed

text \<open>
  C9. The accesses to the grid in \<^verbatim>\<open>dropBlock\<close> and \<^verbatim>\<open>updateDisplay\<close> are within the array for
  every position of the block. With the block on a row of the grid, \<^verbatim>\<open>dropBlock\<close>
  returns without a fault whatever its position and changes no cell outside the grid;
  \<^verbatim>\<open>updateDisplay\<close> returns without a fault on every state and lights no point outside
  columns \<open>0 .. WIDTH - 1\<close>; for a column outside that range the body of either loop over
  the columns of the block does nothing. No run of the sketch faults. With the position
  between 0 and \<open>WIDTH - BLOCK_WIDTH\<close>, every column under the block is a column of the
  grid, so the test on the column never fails.
\<close>

theorem C9_grid_accesses_in_range:
  "(0 \<le> blockRow s \<and> blockRow s < HEIGHT \<longrightarrow>
      (\<exists>s'. dropBlock rnd s = Inr s' \<and>
         (\<forall>row col. \<not> in_grid row col \<longrightarrow> stack s' row col = stack s row col))) \<and>
   (\<exists>m. updateDisplay s = Inr (s\<lparr>matrix := m\<rparr>) \<and> (\<forall>p \<in> set m. 0 \<le> fst p \<and> fst p < WIDTH)) \<and>
   (\<not> (0 \<le> col \<and> col < WIDTH) \<longrightarrow>
      dropCol brow col gp = Inr gp \<and> drawBlockCol brow col m0 = Inr m0) \<and>
   (valid_random r0 \<and> (\<forall>i \<in> set inps. valid_inputs i) \<longrightarrow> run r0 inps \<noteq> Faults e) \<and>
   (0 \<le> blockPos s \<and> blockPos s \<le> WIDTH - BLOCK_WIDTH \<and> span s col \<longrightarrow> 0 \<le> col \<and> col < WIDTH)"
proof (intro conjI impI)
  assume a: "0 \<le> blockRow s \<and> blockRow s < HEIGHT"
  show "\<exists>s'. dropBlock rnd s = Inr s' \<and>
         (\<forall>row col. \<not> in_grid row col \<longrightarrow> stack s' row col = stack s row col)"
    using dropBlock_result[of s rnd] a by (auto simp: landGrid_outside)
next
  show "\<exists>m. updateDisplay s = Inr (s\<lparr>matrix := m\<rparr>) \<and> (\<forall>p \<in> set m. 0 \<le> fst p \<and> fst p < WIDTH)"
    using updateDisplay_cols[of s] by (simp add: in_cols_def)
next
  assume "\<not> (0 \<le> col \<and> col < WIDTH)"
  then show "dropCol brow col gp = Inr gp" "drawBlockCol brow col m0 = Inr m0"
    by (auto simp: dropCol_def drawBlockCol_def)
next
  assume "valid_random r0 \<and> (\<forall>i \<in> set inps. valid_inputs i)"
  then show "run r0 inps \<noteq> Faults e" using run_invariant[of r0 inps e] by simp
next
  assume "0 \<le> blockPos s \<and> blockPos s \<le> WIDTH - BLOCK_WIDTH \<and> span s col"
  then show "0 \<le> col" "col < WIDTH" by (auto simp: span_def sizes)
qed

theorem C9_grid_accesses_in_range_witness:
  "(\<exists>s'. dropBlock 0 (boot\<lparr>blockPos := 6\<rparr>) = Inr s' \<and> stack s' 0 8 = 0) \<and>
   (\<exists>m. updateDisplay (boot\<lparr>blockPos := 6\<rparr>) = Inr (boot\<lparr>blockPos := 6, matrix := m\<rparr>)) \<and>
   dropCol 0 8 (stack boot, False) = Inr (stack boot, False) \<and>
   drawBlockCol 0 8 [] = Inr [] \<and>
   run 3 [press, idle] \<noteq> Faults OutOfBounds \<and>
   span secondRow 3 \<and> 3 < WIDTH"
proof -
  note t = C9_grid_accesses_in_range[of "boot\<lparr>blockPos := 6\<rparr>" 0 8 0 "(stack boot, False)" "[]"
      3 "[press, idle]" OutOfBounds]
  have "\<exists>s'. dropBlock 0 (boot\<lparr>blockPos := 6\<rparr>) = Inr s' \<and> stack s' 0 8 = 0"
  proof -
    from t obtain s' where s': "dropBlock 0 (boot\<lparr>blockPos := 6\<rparr>) = Inr s'"
      "\<forall>row col. \<not> in_grid row col \<longrightarrow> stack s' row col = stack (boot\<lparr>blockPos := 6\<rparr>) row col"
      by (auto simp: boot_def sizes)
    from s'(2) have "stack s' 0 8 = stack (boot\<lparr>blockPos := 6\<rparr>) 0 8"
      by (simp add: in_grid_def sizes)
    with s'(1) show ?thesis by (auto simp: boot_def)
  qed
  moreover have "\<exists>m. updateDisplay (boot\<lparr>blockPos := 6\<rparr>) = Inr (boot\<lparr>blockPos := 6, matrix := m\<rparr>)"
    using t by auto
  moreover have "dropCol 0 8 (stack boot, False) = Inr (stack boot, False)"
    "drawBlockCol 0 8 [] = Inr []"
    using t by (simp_all add: sizes)
  moreover have "run 3 [press, idle] \<noteq> Faults OutOfBounds"
    using t valid_samples by (simp add: valid_random_def sizes)
  moreover have "span secondRow 3"
    by (simp add: span_def secondRow_def boot_def sizes)
  moreover from this have "3 < WIDTH"
    using C9_grid_accesses_in_range[of secondRow 0 3] by (simp add: secondRow_def boot_def sizes)
  ultimately show ?thesis by blast
qed

text \<open>
  C10. On every state the sketch reaches, when the block is moving and the game is not
  over, \<open>blockRow\<close> equals \<open>stackHeight\<close> and is below \<open>HEIGHT\<close>. A reset sets both to 0; a
  drop from a state where they are equal either ends the game or leaves both at the old
  row plus one.
\<close>

theorem C10_blockRow_is_stackHeight:
  "(valid_random r0 \<and> (\<forall>i \<in> set inps. valid_inputs i) \<and> run r0 inps = Returns s0 \<and>
      blockMoving s0 \<and> \<not> gameOver s0 \<longrightarrow>
      blockRow s0 = stackHeight s0 \<and> 0 \<le> blockRow s0 \<and> blockRow s0 < HEIGHT) \<and>
   (\<exists>s'. resetGame rnd s = Inr s' \<and> blockRow s' = 0 \<and> stackHeight s' = 0 \<and>
      blockMoving s' \<and> \<not> gameOver s') \<and>
   (0 \<le> blockRow s \<and> blockRow s < HEIGHT \<and> blockRow s = stackHeight s \<longrightarrow>
      (\<exists>s'. dropBlock rnd s = Inr s' \<and>
         (blockMoving s' \<and> \<not> gameOver s' \<longrightarrow>
            blockRow s' = blockRow s + 1 \<and> stackHeight s' = blockRow s + 1 \<and>
            blockRow s' < HEIGHT) \<and>
         (\<not> blockMoving s' \<longrightarrow> gameOver s')))"
proof (intro conjI impI)
  assume "valid_random r0 \<and> (\<forall>i \<in> set inps. valid_inputs i) \<and> run r0 inps = Returns s0 \<and>
      blockMoving s0 \<and> \<not> gameOver s0"
  then have "game_inv s0" "\<not> gameOver s0"
    using run_invariant[of r0 inps OutOfBounds s0] by simp_all
  then show "blockRow s0 = stackHeight s0" "0 \<le> blockRow s0" "blockRow s0 < HEIGHT"
    by (simp_all add: game_inv_iff)
next
  show "\<exists>s'. resetGame rnd s = Inr s' \<and> blockRow s' = 0 \<and> stackHeight s' = 0 \<and>
      blockMoving s' \<and> \<not> gameOver s'"
    using resetGame_result[of rnd s] by auto
next
  assume a: "0 \<le> blockRow s \<and> blockRow s < HEIGHT \<and> blockRow s = stackHeight s"
  then have "max (stackHeight s) (blockRow s + 1) = blockRow s + 1" by simp
  then show "\<exists>s'. dropBlock rnd s = Inr s' \<and>
         (blockMoving s' \<and> \<not> gameOver s' \<longrightarrow>
            blockRow s' = blockRow s + 1 \<and> stackHeight s' = blockRow s + 1 \<and>
            blockRow s' < HEIGHT) \<and>
         (\<not> blockMoving s' \<longrightarrow> gameOver s')"
    using dropBlock_result[of s rnd] a by auto
qed

theorem C10_blockRow_is_stackHeight_witness:
  "(\<exists>s0. run 3 [press] = Returns s0 \<and> blockMoving s0 \<and> \<not> gameOver s0 \<and>
      blockRow s0 = stackHeight s0 \<and> blockRow s0 < HEIGHT) \<and>
   (\<exists>s'. dropBlock 3 secondRow = Inr s' \<and> blockMoving s' \<and> \<not> gameOver s' \<and> blockRow s' = 2 \<and>
      stackHeight s' = 2)"
proof -
  have v: "valid_random 3" by (simp add: valid_random_def sizes)
  have "\<exists>s0. run 3 [press] = Returns s0 \<and> blockMoving s0 \<and> \<not> gameOver s0 \<and>
      blockRow s0 = stackHeight s0 \<and> blockRow s0 < HEIGHT"
  proof -
    obtain s1 where s1: "setupSketch 3 = Inr s1" "fresh s1" "game_inv s1" "lastMove s1 = 0"
      using resetGame_fresh[OF v, of "boot\<lparr>matrix := []\<rparr>"]
      by (auto simp: setupSketch_def boot_def)
    obtain s0 where s0: "loop press s1 = Returns s0"
      using loop_total[of press s1] s1(3) valid_samples(2) pressed_press(2) by blast
    then have r: "run 3 [press] = Returns s0" using s1(1) by (simp add: run_def)
    have hs: "handleSerial press s1 = Inr s1"
      by (rule handleSerial_None) (simp add: press_def idle_def)
    have nd: "\<not> moveDue press s1"
      using s1(2,4) by (simp add: moveDue_def fresh_iff press_def idle_def word_le_def)
    have row: "0 \<le> blockRow s1" "blockRow s1 < HEIGHT" "blockRow s1 = 0"
      "stackHeight s1 = 0" "\<not> gameOver s1" "\<not> testMode s1"
      using s1(2) by (simp_all add: fresh_iff sizes)
    have "span s1 (blockPos s1) \<and> lands s1 (blockPos s1)"
      using s1(2) by (simp add: span_def lands_def fresh_iff sizes)
    then have ap: "anyPlaced s1" using row by (auto simp: anyPlaced_iff)
    obtain s3 where s3: "dropBlock (rndDrop press) s1 = Inr s3" "blockMoving s3" "\<not> gameOver s3"
      using dropBlock_result[OF row(1,2), of "rndDrop press"] ap row by (auto simp: sizes)
    have "buttonPass press s1 = Returns s0"
      using s0 hs nd row by (simp add: loop_def motionPass_def)
    from buttonPass_Returns[OF this] pressed_press(1) s3
    have bm: "blockMoving s0 \<and> \<not> gameOver s0" by auto
    with C10_blockRow_is_stackHeight[of 3 "[press]" s0 0 boot] v r valid_samples(2)
    have "blockRow s0 = stackHeight s0 \<and> 0 \<le> blockRow s0 \<and> blockRow s0 < HEIGHT" by simp
    with r bm show ?thesis by blast
  qed
  moreover
  have "\<exists>s'. dropBlock 3 secondRow = Inr s' \<and> blockMoving s' \<and> \<not> gameOver s' \<and> blockRow s' = 2 \<and>
      stackHeight s' = 2"
  proof -
    obtain s' where s': "dropBlock 3 secondRow = Inr s'"
      and k: "blockMoving s' \<and> \<not> gameOver s' \<longrightarrow>
            blockRow s' = blockRow secondRow + 1 \<and> stackHeight s' = blockRow secondRow + 1 \<and>
            blockRow s' < HEIGHT"
      using C10_blockRow_is_stackHeight[of 0 "[]" boot 3 secondRow]
      by (auto simp: secondRow_def boot_def sizes)
    have "blockMoving s' \<and> \<not> gameOver s'"
      using s' dropBlock_result[of secondRow 3] anyPlaced_samples(1)
      by (auto simp: secondRow_def boot_def sizes)
    with s' k show ?thesis by (auto simp: secondRow_def boot_def)
  qed
  ultimately show ?thesis by blast
qed

end
